theory Spec2Isabelle
  imports Complex_Main
begin

section \<open>Data model\<close>

text \<open>
  Modelled from the spec: the declaration of the type Course (types/curriculum) is not
  among the sources; the spec gives it an identifier, a name, a credit count, a phase
  number and a list of prerequisite identifiers. The fields that a StudentCourse copies
  from its Course (\<^verbatim>\<open>...courseInfo\<close>) are the parent record; the field \<^verbatim>\<open>id\<close> is
  written \<open>ident\<close>.
\<close>

record course_fields =
  ident :: string
  name :: string
  credits :: int
  prerequisites :: "string list"

record course = course_fields +
  phase :: int

datatype CourseStatus = PENDING | IN_PROGRESS | COMPLETED | FAILED | EXEMPTED | PLANNED

text \<open>
  A JavaScript number where the code compares a parsed value: the result of
  \<^verbatim>\<open>parseFloat\<close> may be NaN or infinite.
\<close>

datatype number = NaN | NegInfinity | Num real | PosInfinity

text \<open>\<^verbatim>\<open>a >= b\<close> for a number \<open>a\<close> and a finite literal \<open>b\<close>: false on NaN.\<close>

fun number_ge :: "number \<Rightarrow> real \<Rightarrow> bool" where
  "number_ge NaN b = False"
| "number_ge NegInfinity b = False"
| "number_ge (Num a) b = (b \<le> a)"
| "number_ge PosInfinity b = True"

text \<open>
  StudentCourse: the fields of the course, the course itself, a status, and the optional
  grade and class (\<^verbatim>\<open>class\<close> is written \<open>class_code\<close>).
\<close>

record student_course = course_fields +
  course :: course
  status :: CourseStatus
  grade :: "number option"
  class_code :: "string option"

text \<open>
  StudentSemester. An element of \<open>courses\<close> is \<open>None\<close> when it is not a StudentCourse
  carrying its course (the entry or its \<^verbatim>\<open>course\<close> field is null or undefined): the type
  \<^verbatim>\<open>StudentCourse[]\<close> excludes such an entry, the guard of calculateStudentPositions
  tests for it.
\<close>

record student_semester =
  number :: int
  courses :: "student_course option list"
  totalCredits :: int

text \<open>
  StudentPlan. The semesters are a JavaScript array: an element is \<open>None\<close> where the
  array has a hole (an index that was never assigned).
\<close>

record student_plan =
  plan_id :: string
  semesters :: "student_semester option list"

record course_position =
  courseId :: string
  pos_x :: real
  pos_y :: real
  width :: real
  height :: real
  isGhost :: "bool option"

text \<open>
  The configuration constants (styles/visualization, config/visualization) are not among
  the sources: they are parameters of the model. Layout arithmetic is over the reals.
\<close>

record config =
  COURSE_BOX_MIN_WIDTH :: real
  COURSE_BOX_WIDTH_FACTOR :: real
  COURSE_BOX_SPACING_Y :: real
  COURSE_BOX_HEIGHT :: real
  PHASE_MIN_WIDTH :: real
  PHASE_BOXES_PER_COLUMN :: nat
  PHASE_TOTAL_SEMESTERS :: nat

section \<open>Numbers in template strings\<close>

text \<open>The decimal numeral that a template string writes for an integer.\<close>

definition digit_char :: "nat \<Rightarrow> char" where
  "digit_char d = ''0123456789'' ! d"

fun string_of_nat :: "nat \<Rightarrow> string" where
  "string_of_nat n =
     (if n < 10 then [digit_char n]
      else string_of_nat (n div 10) @ [digit_char (n mod 10)])"

declare string_of_nat.simps [simp del]

definition string_of_int :: "int \<Rightarrow> string" where
  "string_of_int i =
     (if i < 0 then CHR ''-'' # string_of_nat (nat (- i)) else string_of_nat (nat i))"

section \<open>calculateStudentPositions (lib/parsers/student-parser.ts)\<close>

record positions_result =
  positions :: "course_position list"
  courseMap :: "string \<rightharpoonup> student_course"

definition boxWidth :: "config \<Rightarrow> real \<Rightarrow> real" where
  "boxWidth cfg phaseWidth =
     max (COURSE_BOX_MIN_WIDTH cfg) (phaseWidth * COURSE_BOX_WIDTH_FACTOR cfg)"

definition xOffset :: "config \<Rightarrow> real \<Rightarrow> real" where
  "xOffset cfg phaseWidth = (phaseWidth - boxWidth cfg phaseWidth) / 2"

text \<open>The position pushed for the course \<open>c\<close> at \<open>courseIndex\<close> (lines 59 to 65).\<close>

definition coursePosition ::
  "config \<Rightarrow> real \<Rightarrow> nat \<Rightarrow> nat \<Rightarrow> student_course \<Rightarrow> course_position" where
  "coursePosition cfg phaseWidth semesterIndex courseIndex c =
     \<lparr>courseId = ident (course c),
      pos_x = real semesterIndex * phaseWidth + xOffset cfg phaseWidth,
      pos_y = real courseIndex * COURSE_BOX_SPACING_Y cfg + COURSE_BOX_SPACING_Y cfg,
      width = boxWidth cfg phaseWidth,
      height = COURSE_BOX_HEIGHT cfg,
      isGhost = None\<rparr>"

text \<open>The position pushed for the empty slot \<open>i\<close> (lines 73 to 80).\<close>

definition ghostPosition ::
  "config \<Rightarrow> real \<Rightarrow> nat \<Rightarrow> student_semester \<Rightarrow> nat \<Rightarrow> course_position" where
  "ghostPosition cfg phaseWidth semesterIndex semester i =
     \<lparr>courseId = ''ghost-'' @ string_of_int (number semester) @ ''-'' @ string_of_nat i,
      pos_x = real semesterIndex * phaseWidth + xOffset cfg phaseWidth,
      pos_y = real i * COURSE_BOX_SPACING_Y cfg + COURSE_BOX_SPACING_Y cfg,
      width = boxWidth cfg phaseWidth,
      height = COURSE_BOX_HEIGHT cfg,
      isGhost = Some True\<rparr>"

text \<open>
  The body of \<^verbatim>\<open>semester.courses.forEach\<close>: an invalid entry is skipped (it keeps its
  index), a course is pushed and stored in the map.
\<close>

definition addCourse ::
  "config \<Rightarrow> real \<Rightarrow> nat \<Rightarrow> nat \<times> student_course option \<Rightarrow> positions_result
   \<Rightarrow> positions_result" where
  "addCourse cfg phaseWidth semesterIndex ic st =
     (case snd ic of
        None \<Rightarrow> st
      | Some c \<Rightarrow>
          st\<lparr>positions := positions st @ [coursePosition cfg phaseWidth semesterIndex (fst ic) c],
             courseMap := (courseMap st)(ident (course c) \<mapsto> c)\<rparr>)"

definition addGhost ::
  "config \<Rightarrow> real \<Rightarrow> nat \<Rightarrow> student_semester \<Rightarrow> nat \<Rightarrow> positions_result
   \<Rightarrow> positions_result" where
  "addGhost cfg phaseWidth semesterIndex semester i st =
     st\<lparr>positions := positions st @ [ghostPosition cfg phaseWidth semesterIndex semester i]\<rparr>"

text \<open>
  The body of \<^verbatim>\<open>studentPlan.semesters.forEach\<close>; forEach does not visit a hole. The
  ghost loop runs \<open>i\<close> from the number of entries up to BOXES_PER_COLUMN.
\<close>

definition processSemester ::
  "config \<Rightarrow> real \<Rightarrow> nat \<times> student_semester option \<Rightarrow> positions_result
   \<Rightarrow> positions_result" where
  "processSemester cfg phaseWidth is st =
     (case snd is of
        None \<Rightarrow> st
      | Some semester \<Rightarrow>
          fold (addGhost cfg phaseWidth (fst is) semester)
            [length (courses semester) ..< PHASE_BOXES_PER_COLUMN cfg]
            (fold (addCourse cfg phaseWidth (fst is)) (enumerate 0 (courses semester)) st))"

text \<open>The second argument is optional in the source: it defaults to PHASE.MIN_WIDTH.\<close>

definition phaseWidthOf :: "config \<Rightarrow> real option \<Rightarrow> real" where
  "phaseWidthOf cfg arg = (case arg of None \<Rightarrow> PHASE_MIN_WIDTH cfg | Some w \<Rightarrow> w)"

definition calculateStudentPositions ::
  "config \<Rightarrow> student_plan \<Rightarrow> real option \<Rightarrow> positions_result" where
  "calculateStudentPositions cfg studentPlan arg =
     fold (processSemester cfg (phaseWidthOf cfg arg)) (enumerate 0 (semesters studentPlan))
       \<lparr>positions = [], courseMap = Map.empty\<rparr>"

section \<open>Timetable (components/class-schedule/timetable.tsx)\<close>

text \<open>
  The schedule data and the constants TIMETABLE are plain objects, and a read
  \<^verbatim>\<open>obj[key]\<close> of a plain object also finds the properties that every object inherits
  from \<^verbatim>\<open>Object.prototype\<close>: for these names the read gives a function (for
  \<^verbatim>\<open>__proto__\<close> the prototype itself), never undefined.
\<close>

definition objectPrototypeKeys :: "string list" where
  "objectPrototypeKeys =
     [''constructor'', ''__defineGetter__'', ''__defineSetter__'', ''hasOwnProperty'',
      ''__lookupGetter__'', ''__lookupSetter__'', ''isPrototypeOf'', ''propertyIsEnumerable'',
      ''toString'', ''valueOf'', ''__proto__'', ''toLocaleString'']"

datatype 'a property = Undefined | Own 'a | Inherited string

definition objectGet :: "(string \<rightharpoonup> 'a) \<Rightarrow> string \<Rightarrow> 'a property" where
  "objectGet obj key =
     (case obj key of
        Some v \<Rightarrow> Own v
      | None \<Rightarrow> if key \<in> set objectPrototypeKeys then Inherited key else Undefined)"

text \<open>
  The day of a schedule entry: a day index, or, in an entry that handleProfessorSelect
  built from a day name that \<^verbatim>\<open>Object.prototype\<close> has, the inherited property of that
  name. Used as the key of a cell, the two kinds never coincide.
\<close>

datatype day_value = DayIndex nat | InheritedProperty string

record ScheduleEntry =
  day :: day_value
  startTime :: string

text \<open>The error that a function of the component can raise.\<close>

datatype error = TypeError

text \<open>ProfessorOverride: its fields courseId, professorId and schedule.\<close>

record ProfessorOverride =
  o_courseId :: string
  o_professorId :: string
  o_schedule :: "ScheduleEntry list"

text \<open>
  The schedule data (data/schedule.json) and the constants TIMETABLE are not among the
  sources: they are parameters. \<open>courseTimes\<close> holds the own properties
  \<^verbatim>\<open>scheduleData[courseId]\<close> that are arrays, \<open>professors\<close> is
  \<^verbatim>\<open>scheduleData.professors\<close>, whose own properties are arrays of elements that carry a
  professorId and the text of a schedule. \<open>DAYS_MAP\<close> holds the own properties of
  \<^verbatim>\<open>TIMETABLE.DAYS_MAP\<close>.
\<close>

record professor_data =
  p_professorId :: string
  p_schedule :: string

record schedule_data =
  courseTimes :: "string \<rightharpoonup> ScheduleEntry list"
  professors :: "(string \<rightharpoonup> professor_data list) option"

record time_slot =
  slot_id :: string
  slot_label :: string

record timetable_config =
  TIME_SLOTS :: "time_slot list"
  DAYS :: "string list"
  DAYS_MAP :: "string \<rightharpoonup> nat"

subsection \<open>handleProfessorSelect\<close>

text \<open>\<^verbatim>\<open>s.split(sep)\<close> for a separator of one character: never an empty list.\<close>

fun split :: "char \<Rightarrow> string \<Rightarrow> string list" where
  "split sep [] = [[]]"
| "split sep (c # cs) =
     (if c = sep then [] # split sep cs
      else (case split sep cs of [] \<Rightarrow> [[c]] | w # ws \<Rightarrow> (c # w) # ws))"

text \<open>
  The entries parsed from the text of a professor's schedule (lines 59 to 82). The
  destructuring \<^verbatim>\<open>[startTime, endTime] = timePart.split('-')\<close> takes the first piece, and
  \<^verbatim>\<open>!startTime\<close> holds for the empty string; endTime is not used. The day index is
  read from the plain object DAYS_MAP: only a read that gives undefined skips the day.
\<close>

definition scheduleEntries :: "timetable_config \<Rightarrow> string \<Rightarrow> ScheduleEntry list" where
  "scheduleEntries tt scheduleText =
     (if scheduleText = [] then []
      else
        let parts = split CHR '' '' scheduleText in
        if 2 \<le> length parts then
          let daysPart = parts ! 0;
              timePart = parts ! 1;
              daysList = split CHR ''/'' daysPart;
              startTimeOpt = (case split CHR ''-'' timePart of [] \<Rightarrow> None | t # _ \<Rightarrow> Some t)
          in fold (\<lambda>dayName entries.
                 case (case objectGet (DAYS_MAP tt) dayName of
                         Undefined \<Rightarrow> None
                       | Own i \<Rightarrow> Some (DayIndex i)
                       | Inherited k \<Rightarrow> Some (InheritedProperty k)) of
                   None \<Rightarrow> entries
                 | Some dayIndex \<Rightarrow>
                     (case startTimeOpt of
                        None \<Rightarrow> entries
                      | Some t \<Rightarrow>
                          if t = [] then entries
                          else entries @ [\<lparr>day = dayIndex, startTime = t\<rparr>]))
               daysList []
        else [])"

text \<open>
  The professor data \<^verbatim>\<open>professors?.[course.course.id]?.find(...)\<close> (lines 49 to 51):
  undefined when there are no professors or none for the course. When the course id is a
  name that \<^verbatim>\<open>Object.prototype\<close> has, the read gives a value that is not nullish and has
  no \<^verbatim>\<open>find\<close>, and the call raises a TypeError.
\<close>

definition professorDataOf ::
  "schedule_data \<Rightarrow> student_course \<Rightarrow> string \<Rightarrow> error + professor_data option" where
  "professorDataOf scheduleData c professorId =
     (case professors scheduleData of
        None \<Rightarrow> Inr None
      | Some byCourse \<Rightarrow>
          (case objectGet byCourse (ident (course c)) of
             Undefined \<Rightarrow> Inr None
           | Own ps \<Rightarrow> Inr (find (\<lambda>p. p_professorId p = professorId) ps)
           | Inherited k \<Rightarrow> Inl TypeError))"

text \<open>
  The state is the list of professor overrides; the function returns the new list, or the
  error raised. Nothing changes when the professor is not found for the course.
\<close>

definition handleProfessorSelect ::
  "timetable_config \<Rightarrow> schedule_data \<Rightarrow> ProfessorOverride list \<Rightarrow> student_course \<Rightarrow> string
   \<Rightarrow> error + ProfessorOverride list" where
  "handleProfessorSelect tt scheduleData professorOverrides c professorId =
     (case professorDataOf scheduleData c professorId of
        Inl e \<Rightarrow> Inl e
      | Inr None \<Rightarrow> Inr professorOverrides
      | Inr (Some pd) \<Rightarrow>
          Inr (filter (\<lambda>ov. o_courseId ov \<noteq> ident (course c)) professorOverrides @
               [\<lparr>o_courseId = ident (course c), o_professorId = professorId,
                 o_schedule = scheduleEntries tt (p_schedule pd)\<rparr>]))"

subsection \<open>courseSchedule\<close>

text \<open>
  The grid \<^verbatim>\<open>schedule[slotId][day]\<close>: an object of rows, a row an object of cells. Writing
  into a row that does not exist raises a TypeError, so the functions below return an
  error or the new grid. A cell that is unset or undefined is \<open>None\<close>. The rows are the
  own properties of the grid: courseSchedule reads and writes a row only under the id of
  a time slot, for which the first loop has made a row.
\<close>

type_synonym schedule_row = "day_value \<rightharpoonup> student_course"
type_synonym schedule_grid = "string \<rightharpoonup> schedule_row"

text \<open>\<^verbatim>\<open>schedule[slotId][d] = v\<close>\<close>

definition writeCell ::
  "schedule_grid \<Rightarrow> string \<Rightarrow> day_value \<Rightarrow> student_course option \<Rightarrow> error + schedule_grid"
  where
  "writeCell g slotId d v =
     (case g slotId of
        None \<Rightarrow> Inl TypeError
      | Some row \<Rightarrow> Inr (g(slotId \<mapsto> row(d := v))))"

text \<open>\<^verbatim>\<open>courseSchedule[slotId]?.[d]\<close>, as the table reads it\<close>

definition cell :: "schedule_grid \<Rightarrow> string \<Rightarrow> day_value \<Rightarrow> student_course option" where
  "cell g slotId d = (case g slotId of None \<Rightarrow> None | Some row \<Rightarrow> row d)"

text \<open>A forEach whose body may raise: the first error ends the loop.\<close>

fun forEach :: "('a \<Rightarrow> 's \<Rightarrow> error + 's) \<Rightarrow> 'a list \<Rightarrow> 's \<Rightarrow> error + 's" where
  "forEach f [] s = Inr s"
| "forEach f (a # as) s = (case f a s of Inl e \<Rightarrow> Inl e | Inr s' \<Rightarrow> forEach f as s')"

text \<open>\<^verbatim>\<open>xs.findIndex(P)\<close>: the first index, \<open>None\<close> for -1.\<close>

fun findIndex :: "('a \<Rightarrow> bool) \<Rightarrow> 'a list \<Rightarrow> nat option" where
  "findIndex P [] = None"
| "findIndex P (a # as) = (if P a then Some 0 else map_option Suc (findIndex P as))"

text \<open>The two loops that initialise the grid (lines 99 to 108).\<close>

definition initSchedule :: "timetable_config \<Rightarrow> error + schedule_grid" where
  "initSchedule tt =
     (case forEach (\<lambda>slot g. Inr (g(slot_id slot \<mapsto> Map.empty))) (TIME_SLOTS tt) Map.empty of
        Inl e \<Rightarrow> Inl e
      | Inr g \<Rightarrow>
          forEach (\<lambda>slot. forEach (\<lambda>dayIndex g'. writeCell g' (slot_id slot) (DayIndex dayIndex) None)
                     [0 ..< length (DAYS tt)])
            (TIME_SLOTS tt) g)"

text \<open>
  The body of the loop over the schedule entries of a course; the source has it twice, for
  the default times (lines 127 to 141) and for the entries of an override (lines 150 to
  164).
\<close>

definition applyEntry ::
  "timetable_config \<Rightarrow> student_course \<Rightarrow> ScheduleEntry \<Rightarrow> schedule_grid
   \<Rightarrow> error + schedule_grid" where
  "applyEntry tt c entry g =
     (case findIndex (\<lambda>slot. slot_id slot = startTime entry) (TIME_SLOTS tt) of
        None \<Rightarrow> Inr g
      | Some startSlotIndex \<Rightarrow>
          (case writeCell g (startTime entry) (day entry) (Some c) of
             Inl e \<Rightarrow> Inl e
           | Inr g' \<Rightarrow>
               if startSlotIndex + 1 < length (TIME_SLOTS tt) then
                 writeCell g' (slot_id (TIME_SLOTS tt ! (startSlotIndex + 1))) (day entry) (Some c)
               else Inr g'))"

text \<open>
  The body of the loop over the current courses (lines 116 to 142). A course is skipped
  when \<^verbatim>\<open>scheduleData[courseId]\<close> is not an array: when it is missing, and also when it
  is an inherited property.
\<close>

definition applyDefault ::
  "timetable_config \<Rightarrow> schedule_data \<Rightarrow> string set \<Rightarrow> student_course \<Rightarrow> schedule_grid
   \<Rightarrow> error + schedule_grid" where
  "applyDefault tt scheduleData overriddenCourses c g =
     (if ident (course c) \<in> overriddenCourses then Inr g
      else
        (case courseTimes scheduleData (ident (course c)) of
           None \<Rightarrow> Inr g
         | Some entries \<Rightarrow> forEach (applyEntry tt c) entries g))"

text \<open>The body of the loop over the professor overrides (lines 145 to 165).\<close>

definition applyOverride ::
  "timetable_config \<Rightarrow> student_course list \<Rightarrow> ProfessorOverride \<Rightarrow> schedule_grid
   \<Rightarrow> error + schedule_grid" where
  "applyOverride tt currentCourses ov g =
     (case find (\<lambda>c. ident (course c) = o_courseId ov) currentCourses of
        None \<Rightarrow> Inr g
      | Some c \<Rightarrow> forEach (applyEntry tt c) (o_schedule ov) g)"

text \<open>
  The memo courseSchedule, a function of the current (in progress) courses and the
  professor overrides.
\<close>

definition courseSchedule ::
  "timetable_config \<Rightarrow> schedule_data \<Rightarrow> student_course list \<Rightarrow> ProfessorOverride list
   \<Rightarrow> error + schedule_grid" where
  "courseSchedule tt scheduleData currentCourses professorOverrides =
     (case initSchedule tt of
        Inl e \<Rightarrow> Inl e
      | Inr schedule \<Rightarrow>
          let overriddenCourses = set (map o_courseId professorOverrides) in
          (case forEach (applyDefault tt scheduleData overriddenCourses) currentCourses schedule of
             Inl e \<Rightarrow> Inl e
           | Inr schedule' \<Rightarrow>
               forEach (applyOverride tt currentCourses) professorOverrides schedule'))"

section \<open>parseStudentData (lib/parsers/student-parser.ts)\<close>

text \<open>
  RawStudentData. An element of \<open>coursed\<close> or \<open>plan\<close> is the tuple of a course code, a
  class code and a grade; the class code and the grade may be missing. The two arrays may
  be missing as well: the source tests for them. The field names carry the prefix \<open>raw\<close>.
\<close>

type_synonym raw_entry = "string \<times> string option \<times> string option"

record RawStudentData =
  raw_id :: string
  raw_studentId :: string
  raw_name :: string
  raw_currentSemester :: int
  raw_currentDegree :: "string option"
  raw_interestedDegrees :: "string list option"
  raw_coursed :: "raw_entry list list option"
  raw_plan :: "raw_entry list list option"

record StudentInfo =
  info_id :: string
  info_studentId :: string
  info_name :: string
  currentPlan :: "student_plan option"
  plans :: "student_plan list"
  currentSemester :: string
  currentDegree :: string
  interestedDegrees :: "string list"

text \<open>\<^verbatim>\<open>s || d\<close> for a string \<open>s\<close>: the empty string is falsy.\<close>

definition orDefault :: "string \<Rightarrow> string \<Rightarrow> string" where
  "orDefault s d = (if s = [] then d else s)"

text \<open>\<^verbatim>\<open>classCode || undefined\<close>\<close>

definition orUndefined :: "string option \<Rightarrow> string option" where
  "orUndefined s = (case s of None \<Rightarrow> None | Some t \<Rightarrow> if t = [] then None else Some t)"

text \<open>
  \<^verbatim>\<open>xs[i] = v\<close> on an array: an index beyond the end extends the array and leaves holes.
  \<^verbatim>\<open>xs[i]\<close> is undefined at a hole and at any index outside the array.
\<close>

definition arraySet :: "'a option list \<Rightarrow> nat \<Rightarrow> 'a \<Rightarrow> 'a option list" where
  "arraySet xs i v =
     (if i < length xs then xs[i := Some v]
      else xs @ replicate (i - length xs) None @ [Some v])"

definition arrayGet :: "'a option list \<Rightarrow> int \<Rightarrow> 'a option" where
  "arrayGet xs i = (if 0 \<le> i \<and> nat i < length xs then xs ! nat i else None)"

text \<open>
  \<^verbatim>\<open>courses.reduce((sum, course) => sum + course.credits, 0)\<close>; reading the credits of
  an entry that is no course raises.
\<close>

fun creditSum :: "student_course option list \<Rightarrow> error + int" where
  "creditSum [] = Inr 0"
| "creditSum (None # cs) = Inl TypeError"
| "creditSum (Some c # cs) =
     (case creditSum cs of Inl e \<Rightarrow> Inl e | Inr n \<Rightarrow> Inr (credits c + n))"

text \<open>
  The body of the loop over the entries of a coursed semester (lines 99 to 116).
  \<open>getCourseInfo\<close> (of the curriculum parser, which is not among the sources) and
  \<open>parseFloat\<close> are parameters. The spread \<^verbatim>\<open>...courseInfo\<close> copies the fields of the
  course.
\<close>

definition addCoursed ::
  "(string \<Rightarrow> course option) \<Rightarrow> (string \<Rightarrow> number) \<Rightarrow> raw_entry \<Rightarrow> student_course list
   \<Rightarrow> student_course list" where
  "addCoursed getCourseInfo parseFloat e cs =
     (case e of (courseCode, classCode, gradeText) \<Rightarrow>
        (case getCourseInfo courseCode of
           None \<Rightarrow> cs
         | Some courseInfo \<Rightarrow>
             let gradeValue =
                   (case gradeText of
                      None \<Rightarrow> Num 0
                    | Some t \<Rightarrow> if t = [] then Num 0 else parseFloat t);
                 st = (if number_ge gradeValue 6 then COMPLETED else FAILED)
             in cs @ [\<lparr>ident = ident courseInfo, name = name courseInfo,
                       credits = credits courseInfo,
                       prerequisites = prerequisites courseInfo,
                       course = courseInfo, status = st, grade = Some gradeValue,
                       class_code = orUndefined classCode\<rparr>]))"

text \<open>
  The body of the loop over the coursed semesters (lines 95 to 125): a semester with no
  course found is not stored.
\<close>

definition processCoursed ::
  "(string \<Rightarrow> course option) \<Rightarrow> (string \<Rightarrow> number) \<Rightarrow> nat \<times> raw_entry list
   \<Rightarrow> student_semester option list \<Rightarrow> student_semester option list" where
  "processCoursed getCourseInfo parseFloat ix sems =
     (let semesterNumber = fst ix + 1;
          cs = fold (addCoursed getCourseInfo parseFloat) (snd ix) []
      in if 0 < length cs then
           arraySet sems (semesterNumber - 1)
             \<lparr>number = int semesterNumber, courses = map Some cs,
              totalCredits = fold (\<lambda>c acc. acc + credits c) cs 0\<rparr>
         else sems)"

text \<open>The body of the loop that fills the gaps (lines 129 to 137).\<close>

definition fillGap :: "nat \<Rightarrow> student_semester option list \<Rightarrow> student_semester option list" where
  "fillGap i sems =
     (if arrayGet sems (int i) = None then
        arraySet sems i \<lparr>number = int i + 1, courses = [], totalCredits = 0\<rparr>
      else sems)"

text \<open>The body of the loop over the entries of a planned semester (lines 152 to 169).\<close>

definition addPlanned ::
  "(string \<Rightarrow> course option) \<Rightarrow> CourseStatus \<Rightarrow> raw_entry \<Rightarrow> student_course option list
   \<Rightarrow> student_course option list" where
  "addPlanned getCourseInfo st e cs =
     (case e of (courseCode, classCode, _) \<Rightarrow>
        (case getCourseInfo courseCode of
           None \<Rightarrow> cs
         | Some courseInfo \<Rightarrow>
             cs @ [Some \<lparr>ident = ident courseInfo, name = name courseInfo,
                          credits = credits courseInfo,
                          prerequisites = prerequisites courseInfo,
                          course = courseInfo, status = st, grade = None,
                          class_code = orUndefined classCode\<rparr>]))"

text \<open>
  The body of the loop over the planned semesters (lines 143 to 175). A plan entry beyond
  TOTAL_SEMESTERS is skipped. When the target semester is undefined, the first access to
  its courses (in the push, or at the latest in the update of the total credits) raises a
  TypeError. The target semester is an object of the array: changing it changes the
  array.
\<close>

definition processPlanned ::
  "config \<Rightarrow> (string \<Rightarrow> course option) \<Rightarrow> int \<Rightarrow> nat \<times> raw_entry list
   \<Rightarrow> student_semester option list \<Rightarrow> error + student_semester option list" where
  "processPlanned cfg getCourseInfo currentSemesterNum ix sems =
     (let semesterNumber = currentSemesterNum + int (fst ix) in
      if semesterNumber > int (PHASE_TOTAL_SEMESTERS cfg) then Inr sems
      else
        (case arrayGet sems (semesterNumber - 1) of
           None \<Rightarrow> Inl TypeError
         | Some targetSemester \<Rightarrow>
             let st = (if semesterNumber = currentSemesterNum then IN_PROGRESS else PLANNED);
                 cs = fold (addPlanned getCourseInfo st) (snd ix) (courses targetSemester)
             in (case creditSum cs of
                   Inl e \<Rightarrow> Inl e
                 | Inr creditTotal \<Rightarrow>
                     Inr (sems[nat (semesterNumber - 1) :=
                            Some (targetSemester\<lparr>courses := cs,
                                    totalCredits := creditTotal\<rparr>)]))))"

definition parseStudentData ::
  "config \<Rightarrow> (string \<Rightarrow> course option) \<Rightarrow> (string \<Rightarrow> number) \<Rightarrow> RawStudentData
   \<Rightarrow> error + StudentInfo" where
  "parseStudentData cfg getCourseInfo parseFloat jsonData =
     (let coursedSems =
            (case raw_coursed jsonData of
               None \<Rightarrow> []
             | Some cs \<Rightarrow> fold (processCoursed getCourseInfo parseFloat) (enumerate 0 cs) []);
          filled = fold fillGap [0 ..< PHASE_TOTAL_SEMESTERS cfg] coursedSems;
          planned =
            (case raw_plan jsonData of
               None \<Rightarrow> Inr filled
             | Some ps \<Rightarrow>
                 forEach (processPlanned cfg getCourseInfo (raw_currentSemester jsonData))
                   (enumerate 0 ps) filled)
      in case planned of
           Inl e \<Rightarrow> Inl e
         | Inr sems \<Rightarrow>
             let p = \<lparr>plan_id = ''1'', semesters = sems\<rparr>
             in Inr \<lparr>info_id = orDefault (raw_id jsonData) ''1'',
                     info_studentId = orDefault (raw_studentId jsonData) ''1'',
                     info_name = raw_name jsonData,
                     currentPlan = Some p,
                     plans = [p],
                     currentSemester = string_of_int (raw_currentSemester jsonData),
                     currentDegree =
                       (case raw_currentDegree jsonData of
                          None \<Rightarrow> ''208''
                        | Some d \<Rightarrow> orDefault d ''208''),
                     interestedDegrees =
                       (case raw_interestedDegrees jsonData of None \<Rightarrow> [] | Some ds \<Rightarrow> ds)\<rparr>)"

section \<open>Notions used to state the properties\<close>

text \<open>
  The positions that one iteration of the semester loop pushes: the positions of
  \<open>processSemester\<close> run on an empty result.
\<close>

definition emitted :: "config \<Rightarrow> real \<Rightarrow> nat \<times> student_semester option \<Rightarrow> course_position list" where
  "emitted cfg phaseWidth is =
     positions (processSemester cfg phaseWidth is \<lparr>positions = [], courseMap = Map.empty\<rparr>)"

text \<open>What the course loop pushes for one entry of a semester.\<close>

definition entryPositions :: "config \<Rightarrow> real \<Rightarrow> nat \<Rightarrow> nat \<times> student_course option \<Rightarrow> course_position list" where
  "entryPositions cfg phaseWidth semesterIndex ic =
     (case snd ic of None \<Rightarrow> [] | Some c \<Rightarrow> [coursePosition cfg phaseWidth semesterIndex (fst ic) c])"

text \<open>The StudentCourses of a plan, in the order in which the loops visit them.\<close>

definition studentCourses :: "student_plan \<Rightarrow> student_course list" where
  "studentCourses studentPlan =
     concat (map (\<lambda>s. [c. Some c \<leftarrow> courses s]) [s. Some s \<leftarrow> semesters studentPlan])"

definition is_ghost :: "course_position \<Rightarrow> bool" where
  "is_ghost p = (isGhost p = Some True)"

text \<open>Concrete data for the examples.\<close>

definition exampleConfig :: config where
  "exampleConfig =
     \<lparr>COURSE_BOX_MIN_WIDTH = 140, COURSE_BOX_WIDTH_FACTOR = 4 / 5, COURSE_BOX_SPACING_Y = 60,
      COURSE_BOX_HEIGHT = 50, PHASE_MIN_WIDTH = 200, PHASE_BOXES_PER_COLUMN = 4,
      PHASE_TOTAL_SEMESTERS = 3\<rparr>"

definition exampleCourse :: "string \<Rightarrow> course" where
  "exampleCourse code = \<lparr>ident = code, name = ''Course '' @ code, credits = 4, prerequisites = [], phase = 1\<rparr>"

definition studentCourseOf :: "course \<Rightarrow> CourseStatus \<Rightarrow> student_course" where
  "studentCourseOf ci st = \<lparr>ident = ident ci, name = name ci, credits = credits ci, prerequisites = prerequisites ci,
     course = ci, status = st, grade = None, class_code = None\<rparr>"

definition examplePlan :: student_plan where
  "examplePlan = \<lparr>plan_id = ''1'', semesters =
     [Some \<lparr>number = 1, courses = [Some (studentCourseOf (exampleCourse ''X'') IN_PROGRESS)], totalCredits = 4\<rparr>]\<rparr>"

definition exampleSemester1 :: student_semester where
  "exampleSemester1 =
     \<lparr>number = 1, courses = [Some (studentCourseOf (exampleCourse ''A'') COMPLETED)], totalCredits = 4\<rparr>"

definition exampleSemester2 :: student_semester where
  "exampleSemester2 =
     \<lparr>number = 2,
      courses = [Some (studentCourseOf (exampleCourse ''B'') IN_PROGRESS),
                 Some (studentCourseOf (exampleCourse ''C'') IN_PROGRESS),
                 Some (studentCourseOf (exampleCourse ''D'') IN_PROGRESS),
                 Some (studentCourseOf (exampleCourse ''E'') IN_PROGRESS),
                 Some (studentCourseOf (exampleCourse ''B'') PLANNED)],
      totalCredits = 20\<rparr>"

definition examplePlan2 :: student_plan where
  "examplePlan2 = \<lparr>plan_id = ''1'', semesters = [Some exampleSemester1, Some exampleSemester2]\<rparr>"

subsection \<open>Timetable\<close>

text \<open>
  The slots that a schedule entry occupies: the slot of its start time and the next slot
  of the list, none when no slot has the start time as its id.
\<close>

definition entrySlots :: "timetable_config \<Rightarrow> ScheduleEntry \<Rightarrow> string list" where
  "entrySlots tt entry =
     (case findIndex (\<lambda>slot. slot_id slot = startTime entry) (TIME_SLOTS tt) of
        None \<Rightarrow> []
      | Some i \<Rightarrow>
          if i + 1 < length (TIME_SLOTS tt)
          then [startTime entry, slot_id (TIME_SLOTS tt ! (i + 1))]
          else [startTime entry])"

text \<open>
  The writes of the grid in the order in which courseSchedule makes them, a write being a
  cell (slot id and day) and the course written: those of an entry, those of the default
  pass, and those of the override pass.
\<close>

definition entryWrites ::
  "timetable_config \<Rightarrow> student_course \<Rightarrow> ScheduleEntry \<Rightarrow> ((string \<times> day_value) \<times> student_course) list" where
  "entryWrites tt c entry = map (\<lambda>slotId. ((slotId, day entry), c)) (entrySlots tt entry)"

definition defaultWrites ::
  "timetable_config \<Rightarrow> schedule_data \<Rightarrow> student_course list \<Rightarrow> ProfessorOverride list
   \<Rightarrow> ((string \<times> day_value) \<times> student_course) list" where
  "defaultWrites tt scheduleData currentCourses professorOverrides =
     concat (map (\<lambda>c.
       if ident (course c) \<in> set (map o_courseId professorOverrides) then []
       else (case courseTimes scheduleData (ident (course c)) of
               None \<Rightarrow> []
             | Some entries \<Rightarrow> concat (map (entryWrites tt c) entries)))
       currentCourses)"

definition overrideWrites ::
  "timetable_config \<Rightarrow> student_course list \<Rightarrow> ProfessorOverride list
   \<Rightarrow> ((string \<times> day_value) \<times> student_course) list" where
  "overrideWrites tt currentCourses professorOverrides =
     concat (map (\<lambda>ov.
       case find (\<lambda>c. ident (course c) = o_courseId ov) currentCourses of
         None \<Rightarrow> []
       | Some c \<Rightarrow> concat (map (entryWrites tt c) (o_schedule ov)))
       professorOverrides)"

text \<open>Every time slot has its row in the grid.\<close>

definition rowsExist :: "timetable_config \<Rightarrow> schedule_grid \<Rightarrow> bool" where
  "rowsExist tt g = list_all (\<lambda>slot. g (slot_id slot) \<noteq> None) (TIME_SLOTS tt)"

text \<open>The grid as a map from cells to courses.\<close>

definition cells :: "schedule_grid \<Rightarrow> (string \<times> day_value) \<rightharpoonup> student_course" where
  "cells g = (\<lambda>(slotId, d). cell g slotId d)"

text \<open>
  The slots of a class that starts at \<open>s\<close>, in the words of the spec: the slot at \<open>s\<close>
  and the slot immediately following it in the ordered list of slot ids, only \<open>s\<close> when
  it is the last slot, and none when no slot is \<open>s\<close>.
\<close>

fun expansion :: "string list \<Rightarrow> string \<Rightarrow> string list" where
  "expansion [] s = []"
| "expansion [a] s = (if a = s then [s] else [])"
| "expansion (a # b # rest) s = (if a = s then [s, b] else expansion (b # rest) s)"

text \<open>The cells (slot id and day) that a list of schedule entries claims, by this rule.\<close>

definition claimedCells :: "timetable_config \<Rightarrow> ScheduleEntry list \<Rightarrow> (string \<times> day_value) list" where
  "claimedCells tt es =
     concat (map (\<lambda>e. map (\<lambda>s. (s, day e)) (expansion (map slot_id (TIME_SLOTS tt)) (startTime e))) es)"

text \<open>
  The schedule entries that courseSchedule processes, in its order: the default times of
  the courses that have no override, then the entries of the overrides of a current
  course.
\<close>

definition defaultEntries ::
  "schedule_data \<Rightarrow> ProfessorOverride list \<Rightarrow> student_course list \<Rightarrow> ScheduleEntry list" where
  "defaultEntries scheduleData professorOverrides cs =
     concat (map (\<lambda>c.
       if ident (course c) \<in> set (map o_courseId professorOverrides) then []
       else (case courseTimes scheduleData (ident (course c)) of None \<Rightarrow> [] | Some es \<Rightarrow> es)) cs)"

definition overrideEntries :: "student_course list \<Rightarrow> ProfessorOverride list \<Rightarrow> ScheduleEntry list" where
  "overrideEntries currentCourses professorOverrides =
     concat (map (\<lambda>ov.
       if list_ex (\<lambda>c. ident (course c) = o_courseId ov) currentCourses then o_schedule ov else [])
       professorOverrides)"

text \<open>What handleProfessorSelect pushes for one day name, at the start time \<open>t\<close>.\<close>

definition dayEntries :: "timetable_config \<Rightarrow> string \<Rightarrow> string \<Rightarrow> ScheduleEntry list" where
  "dayEntries tt t dayName =
     (case objectGet (DAYS_MAP tt) dayName of
        Undefined \<Rightarrow> []
      | Own i \<Rightarrow> [\<lparr>day = DayIndex i, startTime = t\<rparr>]
      | Inherited k \<Rightarrow> [\<lparr>day = InheritedProperty k, startTime = t\<rparr>])"

text \<open>Pieces joined by a separator, as in the text of a professor's schedule.\<close>

fun join :: "char \<Rightarrow> string list \<Rightarrow> string" where
  "join sep [] = []"
| "join sep [w] = w"
| "join sep (w # v # ws) = w @ sep # join sep (v # ws)"

text \<open>Concrete data for the examples.\<close>

definition exampleTimetable :: timetable_config where
  "exampleTimetable =
     \<lparr>TIME_SLOTS = [\<lparr>slot_id = ''08:00'', slot_label = ''08:00 - 09:40''\<rparr>,
                    \<lparr>slot_id = ''09:40'', slot_label = ''09:40 - 11:20''\<rparr>,
                    \<lparr>slot_id = ''11:20'', slot_label = ''11:20 - 13:00''\<rparr>],
      DAYS = [''Segunda'', ''Terca'', ''Quarta'', ''Quinta'', ''Sexta''],
      DAYS_MAP = [''Segunda'' \<mapsto> 0, ''Terca'' \<mapsto> 1, ''Quarta'' \<mapsto> 2, ''Quinta'' \<mapsto> 3,
                  ''Sexta'' \<mapsto> 4]\<rparr>"

definition exampleSchedule :: schedule_data where
  "exampleSchedule =
     \<lparr>courseTimes = [''X'' \<mapsto> [\<lparr>day = DayIndex 1, startTime = ''08:00''\<rparr>],
                     ''Y'' \<mapsto> [\<lparr>day = DayIndex 1, startTime = ''09:40''\<rparr>]],
      professors = Some [''X'' \<mapsto> [\<lparr>p_professorId = ''P1'',
                                      p_schedule = ''Quarta/Domingo/Sexta 09:40-10:00''\<rparr>]]\<rparr>"

definition exampleX :: student_course where
  "exampleX = studentCourseOf (exampleCourse ''X'') IN_PROGRESS"

definition exampleY :: student_course where
  "exampleY = studentCourseOf (exampleCourse ''Y'') IN_PROGRESS"

definition exampleGrid :: schedule_grid where
  "exampleGrid = [''08:00'' \<mapsto> Map.empty, ''09:40'' \<mapsto> Map.empty, ''11:20'' \<mapsto> Map.empty]"

definition exampleOverride :: ProfessorOverride where
  "exampleOverride =
     \<lparr>o_courseId = ''X'', o_professorId = ''P1'', o_schedule = [\<lparr>day = DayIndex 2, startTime = ''09:40''\<rparr>]\<rparr>"

definition exampleSchedule2 :: schedule_data where
  "exampleSchedule2 =
     \<lparr>courseTimes = [''X'' \<mapsto> [\<lparr>day = DayIndex 3, startTime = ''11:20''\<rparr>,
                              \<lparr>day = DayIndex 4, startTime = ''10:00''\<rparr>]],
      professors = None\<rparr>"

definition exampleSchedule3 :: schedule_data where
  "exampleSchedule3 =
     \<lparr>courseTimes = Map.empty,
      professors = Some [''X'' \<mapsto> [\<lparr>p_professorId = ''P1'',
                                      p_schedule = ''Quarta/constructor 09:40-11:20''\<rparr>]]\<rparr>"

subsection \<open>Parser\<close>

text \<open>
  The StudentCourses that the loop over a coursed semester adds for one entry: none or
  one.
\<close>

definition coursedCourse ::
  "(string \<Rightarrow> course option) \<Rightarrow> (string \<Rightarrow> number) \<Rightarrow> raw_entry \<Rightarrow> student_course list" where
  "coursedCourse getCourseInfo parseFloat e = addCoursed getCourseInfo parseFloat e []"

text \<open>Concrete data for the examples: a curriculum lookup and a stand-in for parseFloat.\<close>

definition exampleLookup :: "string \<Rightarrow> course option" where
  "exampleLookup code =
     (if code = ''A'' \<or> code = ''B'' \<or> code = ''C'' then Some (exampleCourse code) else None)"

definition exampleParseFloat :: "string \<Rightarrow> number" where
  "exampleParseFloat t =
     (if t = ''7.5'' then Num (15 / 2) else if t = ''6'' then Num 6
      else if t = ''5.9'' then Num (59 / 10) else NaN)"

definition exampleRaw :: RawStudentData where
  "exampleRaw =
     \<lparr>raw_id = ''u1'', raw_studentId = '''', raw_name = ''Student'', raw_currentSemester = 2,
      raw_currentDegree = None, raw_interestedDegrees = None,
      raw_coursed = Some [[(''A'', Some ''T1'', Some ''7.5''), (''Z'', None, Some ''7.5''),
                           (''B'', Some '''', Some ''5.9''), (''C'', None, None)]],
      raw_plan = Some [[(''C'', None, None)], [], [(''A'', None, None)]]\<rparr>"

section \<open>Properties of calculateStudentPositions\<close>

subsection \<open>The result as a function of the plan\<close>

lemma positions_fold_addCourse:
  "positions (fold (addCourse cfg pw i) ics st) =
     positions st @ concat (map (entryPositions cfg pw i) ics)"
  by (induction ics arbitrary: st) (auto simp: addCourse_def entryPositions_def split: option.splits)

lemma courseMap_fold_addCourse:
  "courseMap (fold (addCourse cfg pw i) ics st) =
     courseMap st ++ map_of (rev (map (\<lambda>c. (ident (course c), c)) [c. Some c \<leftarrow> map snd ics]))"
proof (induction ics arbitrary: st)
  case Nil
  show ?case by simp
next
  case (Cons ic ics)
  show ?case
  proof (cases "snd ic")
    case None
    then show ?thesis using Cons.IH [of st] by (simp add: addCourse_def)
  next
    case (Some c)
    have "addCourse cfg pw i ic st =
        st\<lparr>positions := positions st @ [coursePosition cfg pw i (fst ic) c],
           courseMap := (courseMap st)(ident (course c) \<mapsto> c)\<rparr>"
      using Some by (simp add: addCourse_def)
    then have "courseMap (fold (addCourse cfg pw i) (ic # ics) st) =
        (courseMap st)(ident (course c) \<mapsto> c) ++
        map_of (rev (map (\<lambda>c. (ident (course c), c)) [c. Some c \<leftarrow> map snd ics]))"
      by (auto simp: Cons.IH fun_eq_iff map_add_def split: option.splits)
    also have "\<dots> = courseMap st ++
        map_of (rev (map (\<lambda>c. (ident (course c), c)) [c. Some c \<leftarrow> map snd (ic # ics)]))"
      using Some by (auto simp: fun_eq_iff map_add_def split: option.splits)
    finally show ?thesis .
  qed
qed

lemma positions_fold_addGhost:
  "positions (fold (addGhost cfg pw i s) js st) = positions st @ map (ghostPosition cfg pw i s) js"
  by (induction js arbitrary: st) (auto simp: addGhost_def)

lemma courseMap_fold_addGhost:
  "courseMap (fold (addGhost cfg pw i s) js st) = courseMap st"
  by (induction js arbitrary: st) (auto simp: addGhost_def)

lemma emitted_Some:
  "emitted cfg pw (i, Some s) =
     concat (map (entryPositions cfg pw i) (enumerate 0 (courses s))) @
     map (ghostPosition cfg pw i s) [length (courses s) ..< PHASE_BOXES_PER_COLUMN cfg]"
  by (simp add: emitted_def processSemester_def positions_fold_addGhost positions_fold_addCourse)

lemma emitted_None: "emitted cfg pw (i, None) = []"
  by (simp add: emitted_def processSemester_def)

lemma positions_processSemester:
  "positions (processSemester cfg pw is st) = positions st @ emitted cfg pw is"
  by (cases "is") (auto simp: emitted_def processSemester_def positions_fold_addGhost positions_fold_addCourse split: option.splits)

lemma positions_fold_processSemester:
  "positions (fold (processSemester cfg pw) iss st) = positions st @ concat (map (emitted cfg pw) iss)"
  by (induction iss arbitrary: st) (auto simp: positions_processSemester)

lemma positions_calculateStudentPositions:
  "positions (calculateStudentPositions cfg plan arg) =
     concat (map (emitted cfg (phaseWidthOf cfg arg)) (enumerate 0 (semesters plan)))"
  by (simp add: calculateStudentPositions_def positions_fold_processSemester)

lemma courseMap_processSemester:
  "courseMap (processSemester cfg pw is st) =
     courseMap st ++ map_of (rev (map (\<lambda>c. (ident (course c), c))
        (case snd is of None \<Rightarrow> [] | Some s \<Rightarrow> [c. Some c \<leftarrow> courses s])))"
  by (cases "snd is")
    (simp_all add: processSemester_def courseMap_fold_addGhost courseMap_fold_addCourse)

lemma courseMap_fold_processSemester:
  "courseMap (fold (processSemester cfg pw) iss st) =
     courseMap st ++ map_of (rev (map (\<lambda>c. (ident (course c), c))
        (concat (map (\<lambda>s. [c. Some c \<leftarrow> courses s]) [s. Some s \<leftarrow> map snd iss]))))"
proof (induction iss arbitrary: st)
  case Nil
  show ?case by simp
next
  case (Cons a iss)
  show ?case
    by (cases "snd a") (simp_all add: Cons.IH courseMap_processSemester)
qed

lemma courseMap_calculateStudentPositions:
  "courseMap (calculateStudentPositions cfg plan arg) =
     map_of (rev (map (\<lambda>c. (ident (course c), c)) (studentCourses plan)))"
  by (simp add: calculateStudentPositions_def courseMap_fold_processSemester studentCourses_def)

lemma filter_ghost_entryPositions:
  "filter is_ghost (concat (map (entryPositions cfg pw i) ics)) = []"
  by (induction ics) (auto simp: entryPositions_def coursePosition_def is_ghost_def split: option.splits)

lemma filter_ghost_ghosts:
  "filter is_ghost (map (ghostPosition cfg pw i s) js) = map (ghostPosition cfg pw i s) js"
  by (induction js) (auto simp: ghostPosition_def is_ghost_def)

lemma filter_ghost_emitted:
  "filter is_ghost (emitted cfg pw (i, Some s)) =
     map (ghostPosition cfg pw i s) [length (courses s) ..< PHASE_BOXES_PER_COLUMN cfg]"
  by (simp add: emitted_Some filter_ghost_entryPositions filter_ghost_ghosts)

lemma enumerate_split:
  assumes "i < length xs"
  shows "enumerate n xs = enumerate n (take i xs) @ (n + i, xs ! i) # enumerate (Suc (n + i)) (drop (Suc i) xs)"
proof -
  have "enumerate n xs = enumerate n (take i xs @ xs ! i # drop (Suc i) xs)"
    using assms by (simp add: id_take_nth_drop [symmetric])
  also have "\<dots> = enumerate n (take i xs) @ (n + i, xs ! i) # enumerate (Suc (n + i)) (drop (Suc i) xs)"
    using assms by (simp add: enumerate_append_eq min_def)
  finally show ?thesis .
qed

lemma positions_split:
  assumes "i < length (semesters plan)"
  shows "positions (calculateStudentPositions cfg plan arg) =
     concat (map (emitted cfg (phaseWidthOf cfg arg)) (enumerate 0 (take i (semesters plan)))) @
     emitted cfg (phaseWidthOf cfg arg) (i, semesters plan ! i) @
     concat (map (emitted cfg (phaseWidthOf cfg arg)) (enumerate (Suc i) (drop (Suc i) (semesters plan))))"
  using enumerate_split [OF assms, of 0]
  by (simp add: positions_calculateStudentPositions)

lemma string_of_nat_digit: "n < 10 \<Longrightarrow> string_of_nat n = [digit_char n]"
  by (simp add: string_of_nat.simps)

subsection \<open>Ghost padding\<close>

text \<open>
  Claim C1. Let the semester \<open>s\<close> stand at index \<open>i\<close> of the plan and hold fewer than
  BOXES_PER_COLUMN entries. The positions of the plan are those of the semesters before,
  those of \<open>s\<close>, and those of the semesters after. Among the positions of \<open>s\<close> the
  ghosts are exactly the ghost positions of the slots from the number of entries up to
  BOXES_PER_COLUMN - 1, in this order: they are BOXES_PER_COLUMN minus the number of
  entries many, the slot \<open>j\<close> has the id ghost-(number of \<open>s\<close>)-\<open>j\<close>, and each has
  isGhost = true.
\<close>

theorem ghost_padding:
  assumes "i < length (semesters plan)" and "semesters plan ! i = Some s"
    and "length (courses s) < PHASE_BOXES_PER_COLUMN cfg"
  shows "positions (calculateStudentPositions cfg plan arg) =
       concat (map (emitted cfg (phaseWidthOf cfg arg)) (enumerate 0 (take i (semesters plan)))) @
       emitted cfg (phaseWidthOf cfg arg) (i, Some s) @
       concat (map (emitted cfg (phaseWidthOf cfg arg)) (enumerate (Suc i) (drop (Suc i) (semesters plan))))
     \<and> filter is_ghost (emitted cfg (phaseWidthOf cfg arg) (i, Some s)) =
       map (ghostPosition cfg (phaseWidthOf cfg arg) i s)
         [length (courses s) ..< PHASE_BOXES_PER_COLUMN cfg]
     \<and> length (filter is_ghost (emitted cfg (phaseWidthOf cfg arg) (i, Some s))) =
       PHASE_BOXES_PER_COLUMN cfg - length (courses s)
     \<and> map courseId (filter is_ghost (emitted cfg (phaseWidthOf cfg arg) (i, Some s))) =
       map (\<lambda>j. ''ghost-'' @ string_of_int (number s) @ ''-'' @ string_of_nat j)
         [length (courses s) ..< PHASE_BOXES_PER_COLUMN cfg]
     \<and> map isGhost (filter is_ghost (emitted cfg (phaseWidthOf cfg arg) (i, Some s))) =
       replicate (PHASE_BOXES_PER_COLUMN cfg - length (courses s)) (Some True)"
proof -
  have whole: "positions (calculateStudentPositions cfg plan arg) =
       concat (map (emitted cfg (phaseWidthOf cfg arg)) (enumerate 0 (take i (semesters plan)))) @
       emitted cfg (phaseWidthOf cfg arg) (i, Some s) @
       concat (map (emitted cfg (phaseWidthOf cfg arg)) (enumerate (Suc i) (drop (Suc i) (semesters plan))))"
    using positions_split [OF assms(1), of cfg arg] assms(2) by simp
  have ids: "map courseId (map (ghostPosition cfg pw i s) js) =
       map (\<lambda>j. ''ghost-'' @ string_of_int (number s) @ ''-'' @ string_of_nat j) js" for pw js
    by (simp add: ghostPosition_def)
  have flags: "map isGhost (map (ghostPosition cfg pw i s) js) = replicate (length js) (Some True)"
    for pw js
    by (simp add: ghostPosition_def comp_def map_replicate_const)
  show ?thesis
    using whole ids flags by (simp only: filter_ghost_emitted length_map length_upt)
qed

text \<open>
  The example of the spec: a plan of one semester, numbered 1, with one course, and four
  boxes per column. There are four positions, the ghosts are ghost-1-1, ghost-1-2, ghost-1-3.
\<close>

theorem ghost_padding_witness:
  "map courseId (filter is_ghost (positions (calculateStudentPositions exampleConfig examplePlan None))) =
     [''ghost-1-1'', ''ghost-1-2'', ''ghost-1-3'']
   \<and> length (positions (calculateStudentPositions exampleConfig examplePlan None)) = 4"
proof -
  let ?s = "\<lparr>number = 1, courses = [Some (studentCourseOf (exampleCourse ''X'') IN_PROGRESS)],
    totalCredits = 4\<rparr>"
  let ?e = "emitted exampleConfig (phaseWidthOf exampleConfig None) (0, Some ?s)"
  have range: "[length (courses ?s) ..< PHASE_BOXES_PER_COLUMN exampleConfig] = [1, 2, 3]"
    by (simp add: exampleConfig_def upt_rec)
  have "0 < length (semesters examplePlan)" "semesters examplePlan ! 0 = Some ?s"
    "length (courses ?s) < PHASE_BOXES_PER_COLUMN exampleConfig"
    by (simp_all add: examplePlan_def exampleConfig_def)
  note gp = ghost_padding [OF this, of None]
  from gp have "positions (calculateStudentPositions exampleConfig examplePlan None) =
       concat (map (emitted exampleConfig (phaseWidthOf exampleConfig None))
         (enumerate 0 (take 0 (semesters examplePlan)))) @ ?e @
       concat (map (emitted exampleConfig (phaseWidthOf exampleConfig None))
         (enumerate (Suc 0) (drop (Suc 0) (semesters examplePlan))))"
    by blast
  then have whole: "positions (calculateStudentPositions exampleConfig examplePlan None) = ?e"
    by (simp add: examplePlan_def)
  from gp have "map courseId (filter is_ghost ?e) =
       map (\<lambda>j. ''ghost-'' @ string_of_int (number ?s) @ ''-'' @ string_of_nat j)
         [length (courses ?s) ..< PHASE_BOXES_PER_COLUMN exampleConfig]"
    by blast
  then have ids: "map courseId (filter is_ghost ?e) = [''ghost-1-1'', ''ghost-1-2'', ''ghost-1-3'']"
    unfolding range by (simp add: string_of_int_def string_of_nat_digit digit_char_def)
  have "length ?e = 4"
    by (simp add: emitted_Some entryPositions_def exampleConfig_def)
  with ids show ?thesis
    unfolding whole by simp
qed

subsection \<open>Number of positions\<close>

lemma length_entryPositions:
  "length (concat (map (entryPositions cfg pw i) ics)) = length [c. Some c \<leftarrow> map snd ics]"
  by (induction ics) (auto simp: entryPositions_def split: option.splits)

lemma length_emitted:
  "length (emitted cfg pw (i, Some s)) =
     length [c. Some c \<leftarrow> courses s] + (PHASE_BOXES_PER_COLUMN cfg - length (courses s))"
  using length_entryPositions [of cfg pw i "enumerate 0 (courses s)"]
  by (simp add: emitted_Some)

lemma length_concat_emitted_any:
  "length (concat (map (emitted cfg pw) iss)) =
     (\<Sum>s\<leftarrow>[s. Some s \<leftarrow> map snd iss].
        length [c. Some c \<leftarrow> courses s] + (PHASE_BOXES_PER_COLUMN cfg - length (courses s)))"
proof (induction iss)
  case Nil
  show ?case by simp
next
  case (Cons a iss)
  obtain i so where a: "a = (i, so)" by (cases a)
  show ?case
    using Cons a by (cases so) (simp_all add: emitted_None length_emitted)
qed

lemma length_entryPositions_valid:
  "None \<notin> snd ` set ics \<Longrightarrow> length (concat (map (entryPositions cfg pw i) ics)) = length ics"
  by (induction ics) (auto simp: entryPositions_def split: option.splits)

lemma length_emitted_valid:
  assumes "None \<notin> set (courses s)"
  shows "length (emitted cfg pw (i, Some s)) = max (length (courses s)) (PHASE_BOXES_PER_COLUMN cfg)"
proof -
  have "snd ` set (enumerate 0 (courses s)) = set (courses s)"
    by (metis list.set_map map_snd_enumerate)
  with assms have "length (concat (map (entryPositions cfg pw i) (enumerate 0 (courses s)))) = length (courses s)"
    using length_entryPositions_valid [of "enumerate 0 (courses s)" cfg pw i] by simp
  then show ?thesis
    by (simp add: emitted_Some)
qed

lemma length_concat_emitted:
  assumes "\<forall>s. Some s \<in> snd ` set iss \<longrightarrow> None \<notin> set (courses s)"
  shows "length (concat (map (emitted cfg pw) iss)) =
     (\<Sum>s\<leftarrow>[s. Some s \<leftarrow> map snd iss]. max (length (courses s)) (PHASE_BOXES_PER_COLUMN cfg))"
  using assms
proof (induction iss)
  case Nil
  show ?case by simp
next
  case (Cons a iss)
  obtain i so where a: "a = (i, so)" by (cases a)
  show ?case
  proof (cases so)
    case None
    with a Cons show ?thesis by (simp add: emitted_None)
  next
    case (Some s)
    with a Cons.prems have "None \<notin> set (courses s)" by force
    with a Some Cons show ?thesis by (simp add: length_emitted_valid)
  qed
qed

lemma real_ids_entryPositions:
  "map courseId (filter (\<lambda>p. \<not> is_ghost p) (concat (map (entryPositions cfg pw i) ics))) =
     map (\<lambda>c. ident (course c)) [c. Some c \<leftarrow> map snd ics]"
  by (induction ics) (auto simp: entryPositions_def coursePosition_def is_ghost_def split: option.splits)

lemma real_ids_emitted:
  "map courseId (filter (\<lambda>p. \<not> is_ghost p) (emitted cfg pw (i, Some s))) =
     map (\<lambda>c. ident (course c)) [c. Some c \<leftarrow> courses s]"
proof -
  have "filter (\<lambda>p. \<not> is_ghost p) (map (ghostPosition cfg pw i s) js) = []" for js
    by (induction js) (auto simp: ghostPosition_def is_ghost_def)
  then show ?thesis
    using real_ids_entryPositions [of cfg pw i "enumerate 0 (courses s)"]
    by (simp add: emitted_Some)
qed

lemma real_ids_concat_emitted:
  "map courseId (filter (\<lambda>p. \<not> is_ghost p) (concat (map (emitted cfg pw) iss))) =
     map (\<lambda>c. ident (course c)) (concat (map (\<lambda>s. [c. Some c \<leftarrow> courses s]) [s. Some s \<leftarrow> map snd iss]))"
proof (induction iss)
  case Nil
  show ?case by simp
next
  case (Cons a iss)
  obtain i so where a: "a = (i, so)" by (cases a)
  show ?case
    using Cons a by (cases so) (simp_all add: emitted_None real_ids_emitted)
qed

lemma length_valid_courses: "None \<notin> set es \<Longrightarrow> length [c. Some c \<leftarrow> es] = length es"
proof (induction es)
  case Nil
  show ?case by simp
next
  case (Cons e es)
  then show ?case by (cases e) auto
qed

lemma length_studentCourses:
  assumes "\<forall>s. Some s \<in> set sems \<longrightarrow> None \<notin> set (courses s)"
  shows "length (concat (map (\<lambda>s. [c. Some c \<leftarrow> courses s]) [s. Some s \<leftarrow> sems])) =
     (\<Sum>s\<leftarrow>[s. Some s \<leftarrow> sems]. length (courses s))"
  using assms
proof (induction sems)
  case Nil
  show ?case by simp
next
  case (Cons so sems)
  show ?case
  proof (cases so)
    case None
    with Cons show ?thesis by simp
  next
    case (Some s)
    with Cons.prems have "None \<notin> set (courses s)" by simp
    with Some Cons show ?thesis by (simp add: length_valid_courses)
  qed
qed

text \<open>
  Without any assumption on the entries, a semester gives one position for each entry
  that is a StudentCourse and one ghost for each slot from its number of entries up to
  BOXES_PER_COLUMN: an entry that fails the guard gets no position, and no ghost either.
\<close>

lemma position_count_any:
  "length (positions (calculateStudentPositions cfg plan arg)) =
     (\<Sum>s\<leftarrow>[s. Some s \<leftarrow> semesters plan].
        length [c. Some c \<leftarrow> courses s] + (PHASE_BOXES_PER_COLUMN cfg - length (courses s)))"
  using length_concat_emitted_any [of cfg "phaseWidthOf cfg arg" "enumerate 0 (semesters plan)"]
  by (simp add: positions_calculateStudentPositions)

text \<open>
  Claim C4. For a plan whose semesters hold StudentCourses only (no entry is null or lacks
  its course, as the type StudentCourse[] says), the number of positions is the sum over
  the semesters of the maximum of the number of courses and BOXES_PER_COLUMN, that is of
  the number of courses plus the number of ghosts that fill the rest of the column. The
  positions that are not ghosts are, in order, one for each course of each semester: no
  course is dropped, and their number is the sum of the course counts.
\<close>

theorem position_count:
  assumes "\<forall>s. Some s \<in> set (semesters plan) \<longrightarrow> None \<notin> set (courses s)"
  shows "length (positions (calculateStudentPositions cfg plan arg)) =
       (\<Sum>s\<leftarrow>[s. Some s \<leftarrow> semesters plan]. max (length (courses s)) (PHASE_BOXES_PER_COLUMN cfg))
     \<and> length (positions (calculateStudentPositions cfg plan arg)) =
       (\<Sum>s\<leftarrow>[s. Some s \<leftarrow> semesters plan].
          length (courses s) + (PHASE_BOXES_PER_COLUMN cfg - length (courses s)))
     \<and> map courseId (filter (\<lambda>p. \<not> is_ghost p) (positions (calculateStudentPositions cfg plan arg))) =
       map (\<lambda>c. ident (course c)) (studentCourses plan)
     \<and> length (filter (\<lambda>p. \<not> is_ghost p) (positions (calculateStudentPositions cfg plan arg))) =
       (\<Sum>s\<leftarrow>[s. Some s \<leftarrow> semesters plan]. length (courses s))"
proof -
  let ?ps = "positions (calculateStudentPositions cfg plan arg)"
  have sems: "snd ` set (enumerate 0 (semesters plan)) = set (semesters plan)"
    by (metis list.set_map map_snd_enumerate)
  have total: "length ?ps =
       (\<Sum>s\<leftarrow>[s. Some s \<leftarrow> semesters plan]. max (length (courses s)) (PHASE_BOXES_PER_COLUMN cfg))"
    using length_concat_emitted [of "enumerate 0 (semesters plan)" cfg "phaseWidthOf cfg arg"] assms sems
    by (simp add: positions_calculateStudentPositions)
  have ids: "map courseId (filter (\<lambda>p. \<not> is_ghost p) ?ps) = map (\<lambda>c. ident (course c)) (studentCourses plan)"
    using real_ids_concat_emitted [of cfg "phaseWidthOf cfg arg" "enumerate 0 (semesters plan)"]
    by (simp add: positions_calculateStudentPositions studentCourses_def)
  have "length (filter (\<lambda>p. \<not> is_ghost p) ?ps) = length (map courseId (filter (\<lambda>p. \<not> is_ghost p) ?ps))"
    by simp
  also have "\<dots> = length (studentCourses plan)"
    by (simp only: ids length_map)
  also have "\<dots> = (\<Sum>s\<leftarrow>[s. Some s \<leftarrow> semesters plan]. length (courses s))"
    using length_studentCourses [OF assms] by (simp add: studentCourses_def)
  finally have reals: "length (filter (\<lambda>p. \<not> is_ghost p) ?ps) =
       (\<Sum>s\<leftarrow>[s. Some s \<leftarrow> semesters plan]. length (courses s))" .
  have eq: "(\<lambda>s. max (length (courses s)) (PHASE_BOXES_PER_COLUMN cfg)) =
      (\<lambda>s. length (courses s) + (PHASE_BOXES_PER_COLUMN cfg - length (courses s)))"
    by (rule ext) simp
  have split: "length ?ps =
       (\<Sum>s\<leftarrow>[s. Some s \<leftarrow> semesters plan].
          length (courses s) + (PHASE_BOXES_PER_COLUMN cfg - length (courses s)))"
    by (simp only: total eq)
  from total split ids reals show ?thesis by blast
qed

text \<open>
  A plan with one course in the first semester and five in the second, four boxes per
  column: four positions for the first semester, five for the second.
\<close>

theorem position_count_witness:
  "length (positions (calculateStudentPositions exampleConfig examplePlan2 None)) = 4 + 5
   \<and> map courseId (filter (\<lambda>p. \<not> is_ghost p)
        (positions (calculateStudentPositions exampleConfig examplePlan2 None))) =
      [''A'', ''B'', ''C'', ''D'', ''E'', ''B'']"
proof -
  have valid: "\<forall>s. Some s \<in> set (semesters examplePlan2) \<longrightarrow> None \<notin> set (courses s)"
    by (auto simp: examplePlan2_def exampleSemester1_def exampleSemester2_def)
  from position_count [OF valid, of exampleConfig None] show ?thesis
    by (simp add: examplePlan2_def exampleSemester1_def exampleSemester2_def exampleConfig_def
        studentCourses_def studentCourseOf_def exampleCourse_def)
qed

subsection \<open>Coordinates\<close>

lemma entry_in_enumerate:
  "j < length es \<Longrightarrow> (j, es ! j) \<in> set (enumerate 0 es)"
  by (simp add: in_set_enumerate_eq)

lemma coursePosition_in_emitted:
  assumes "j < length (courses s)" and "courses s ! j = Some c"
  shows "coursePosition cfg pw i j c \<in> set (emitted cfg pw (i, Some s))"
proof -
  have "(j, Some c) \<in> set (enumerate 0 (courses s))"
    using entry_in_enumerate [OF assms(1)] assms(2) by simp
  moreover have "coursePosition cfg pw i j c \<in> set (entryPositions cfg pw i (j, Some c))"
    by (simp add: entryPositions_def)
  ultimately show ?thesis
    by (auto simp: emitted_Some)
qed

lemma emitted_in_positions:
  assumes "i < length (semesters plan)"
  shows "set (emitted cfg (phaseWidthOf cfg arg) (i, semesters plan ! i))
     \<subseteq> set (positions (calculateStudentPositions cfg plan arg))"
  using positions_split [OF assms, of cfg arg] by auto

text \<open>
  Claim C5. Let the phase width be the width that the caller supplies, or PHASE.MIN_WIDTH
  when the caller supplies none. The course at index \<open>j\<close> of the semester at index
  \<open>i\<close> of the plan gets the position with
  x = i * phaseWidth + (phaseWidth - boxWidth) / 2 and y = j * SPACING_Y + SPACING_Y, where
  boxWidth is the maximum of the minimum box width and phaseWidth * WIDTH_FACTOR: the box
  is placed in the column of its semester, which starts at i * phaseWidth, at half of the
  width that the box leaves free.
\<close>

theorem position_coordinates:
  assumes "i < length (semesters plan)" and "semesters plan ! i = Some s"
    and "j < length (courses s)" and "courses s ! j = Some c"
  shows "(let phaseWidth = (case arg of None \<Rightarrow> PHASE_MIN_WIDTH cfg | Some w \<Rightarrow> w);
              boxWidth = max (COURSE_BOX_MIN_WIDTH cfg) (phaseWidth * COURSE_BOX_WIDTH_FACTOR cfg);
              p = \<lparr>courseId = ident (course c),
                   pos_x = real i * phaseWidth + (phaseWidth - boxWidth) / 2,
                   pos_y = real j * COURSE_BOX_SPACING_Y cfg + COURSE_BOX_SPACING_Y cfg,
                   width = boxWidth,
                   height = COURSE_BOX_HEIGHT cfg,
                   isGhost = None\<rparr>
          in p \<in> set (emitted cfg phaseWidth (i, Some s))
           \<and> p \<in> set (positions (calculateStudentPositions cfg plan arg)))"
proof -
  let ?pw = "phaseWidthOf cfg arg"
  have pw: "(case arg of None \<Rightarrow> PHASE_MIN_WIDTH cfg | Some w \<Rightarrow> w) = ?pw"
    by (simp add: phaseWidthOf_def)
  have p: "coursePosition cfg ?pw i j c \<in> set (emitted cfg ?pw (i, Some s))"
    using coursePosition_in_emitted [OF assms(3,4)] .
  then have "coursePosition cfg ?pw i j c \<in> set (positions (calculateStudentPositions cfg plan arg))"
    using emitted_in_positions [OF assms(1), of cfg arg] assms(2) by auto
  with p show ?thesis
    unfolding pw by (simp add: Let_def coursePosition_def xOffset_def boxWidth_def)
qed

text \<open>
  The third course of the second semester. With the supplied phase width 300 the box is
  240 wide, at x = 300 + 30 and y = 2 * 60 + 60; with no width supplied the phase width is
  200 and the box is 160 wide, at x = 200 + 20.
\<close>

theorem position_coordinates_witness:
  "\<lparr>courseId = ''D'', pos_x = 330, pos_y = 180, width = 240, height = 50, isGhost = None\<rparr>
     \<in> set (positions (calculateStudentPositions exampleConfig examplePlan2 (Some 300)))
   \<and> \<lparr>courseId = ''D'', pos_x = 220, pos_y = 180, width = 160, height = 50, isGhost = None\<rparr>
     \<in> set (positions (calculateStudentPositions exampleConfig examplePlan2 None))"
proof -
  have h: "1 < length (semesters examplePlan2)" "semesters examplePlan2 ! 1 = Some exampleSemester2"
    "2 < length (courses exampleSemester2)"
    "courses exampleSemester2 ! 2 = Some (studentCourseOf (exampleCourse ''D'') IN_PROGRESS)"
    by (simp_all add: examplePlan2_def exampleSemester2_def)
  from position_coordinates [OF h, of exampleConfig "Some 300"]
  have "\<lparr>courseId = ''D'', pos_x = 330, pos_y = 180, width = 240, height = 50, isGhost = None\<rparr>
     \<in> set (positions (calculateStudentPositions exampleConfig examplePlan2 (Some 300)))"
    by (simp add: Let_def exampleConfig_def studentCourseOf_def exampleCourse_def)
  moreover from position_coordinates [OF h, of exampleConfig None]
  have "\<lparr>courseId = ''D'', pos_x = 220, pos_y = 180, width = 160, height = 50, isGhost = None\<rparr>
     \<in> set (positions (calculateStudentPositions exampleConfig examplePlan2 None))"
    by (simp add: Let_def exampleConfig_def studentCourseOf_def exampleCourse_def)
  ultimately show ?thesis by blast
qed

subsection \<open>The course map\<close>

lemma map_of_rev_last:
  assumes "k \<notin> fst ` set ys"
  shows "map_of (rev (xs @ (k, v) # ys)) k = Some v"
proof -
  have "map_of (rev ys) k = None"
    using assms by (simp add: map_of_eq_None_iff)
  then show ?thesis
    by (simp add: map_add_def)
qed

text \<open>
  Claim C9. The course map is the map of the StudentCourses of the plan by the identifier
  of their course, a later course overwriting an earlier one of the same identifier. Its
  keys are the identifiers of the courses of the plan, which are the ids of the positions
  that are not ghosts: a ghost adds no entry. Its values are StudentCourses of the plan,
  and the last course of an identifier is the one stored under it.
\<close>

theorem courseMap_contents:
  "courseMap (calculateStudentPositions cfg plan arg) =
     map_of (rev (map (\<lambda>c. (ident (course c), c)) (studentCourses plan)))
   \<and> dom (courseMap (calculateStudentPositions cfg plan arg)) =
     (\<lambda>c. ident (course c)) ` set (studentCourses plan)
   \<and> dom (courseMap (calculateStudentPositions cfg plan arg)) =
     courseId ` {p \<in> set (positions (calculateStudentPositions cfg plan arg)). \<not> is_ghost p}
   \<and> ran (courseMap (calculateStudentPositions cfg plan arg)) \<subseteq> set (studentCourses plan)
   \<and> (\<forall>xs c ys. studentCourses plan = xs @ c # ys \<and>
        ident (course c) \<notin> (\<lambda>c. ident (course c)) ` set ys \<longrightarrow>
        courseMap (calculateStudentPositions cfg plan arg) (ident (course c)) = Some c)"
proof -
  let ?m = "courseMap (calculateStudentPositions cfg plan arg)"
  let ?ps = "positions (calculateStudentPositions cfg plan arg)"
  let ?kv = "map (\<lambda>c. (ident (course c), c)) (studentCourses plan)"
  have m: "?m = map_of (rev ?kv)"
    by (rule courseMap_calculateStudentPositions)
  have d: "dom ?m = (\<lambda>c. ident (course c)) ` set (studentCourses plan)"
    unfolding m by (simp add: dom_map_of_conv_image_fst image_image)
  have "courseId ` {p \<in> set ?ps. \<not> is_ghost p} = set (map courseId (filter (\<lambda>p. \<not> is_ghost p) ?ps))"
    by auto
  also have "\<dots> = set (map (\<lambda>c. ident (course c)) (studentCourses plan))"
    using real_ids_concat_emitted [of cfg "phaseWidthOf cfg arg" "enumerate 0 (semesters plan)"]
    by (simp only: positions_calculateStudentPositions studentCourses_def map_snd_enumerate)
  finally have g: "dom ?m = courseId ` {p \<in> set ?ps. \<not> is_ghost p}"
    using d by simp
  have r: "ran ?m \<subseteq> set (studentCourses plan)"
  proof
    fix v assume "v \<in> ran ?m"
    then obtain k where "map_of (rev ?kv) k = Some v"
      unfolding m by (auto simp: ran_def)
    then have "(k, v) \<in> set (rev ?kv)"
      by (rule map_of_SomeD)
    then show "v \<in> set (studentCourses plan)"
      by auto
  qed
  have l: "\<forall>xs c ys. studentCourses plan = xs @ c # ys \<and>
        ident (course c) \<notin> (\<lambda>c. ident (course c)) ` set ys \<longrightarrow> ?m (ident (course c)) = Some c"
  proof (intro allI impI, elim conjE)
    fix xs c ys
    assume eq: "studentCourses plan = xs @ c # ys"
      and last: "ident (course c) \<notin> (\<lambda>c. ident (course c)) ` set ys"
    let ?f = "\<lambda>c. (ident (course c), c)"
    have "?kv = map ?f xs @ (ident (course c), c) # map ?f ys"
      by (simp add: eq)
    moreover have "ident (course c) \<notin> fst ` set (map ?f ys)"
      using last by (simp add: image_image)
    ultimately show "?m (ident (course c)) = Some c"
      unfolding m using map_of_rev_last [of "ident (course c)" "map ?f ys" "map ?f xs" c] by simp
  qed
  from m d g r l show ?thesis by blast
qed

text \<open>
  In the example the identifier B occurs twice in the second semester: the map holds the
  later course, and has no entry for a ghost id.
\<close>

theorem courseMap_contents_witness:
  "courseMap (calculateStudentPositions exampleConfig examplePlan2 None) ''B'' =
     Some (studentCourseOf (exampleCourse ''B'') PLANNED)
   \<and> courseMap (calculateStudentPositions exampleConfig examplePlan2 None) ''ghost-1-1'' = None
   \<and> dom (courseMap (calculateStudentPositions exampleConfig examplePlan2 None)) =
     {''A'', ''B'', ''C'', ''D'', ''E''}"
proof -
  note cm = courseMap_contents [of exampleConfig examplePlan2 None]
  have sc: "studentCourses examplePlan2 =
     [studentCourseOf (exampleCourse ''A'') COMPLETED,
      studentCourseOf (exampleCourse ''B'') IN_PROGRESS,
      studentCourseOf (exampleCourse ''C'') IN_PROGRESS,
      studentCourseOf (exampleCourse ''D'') IN_PROGRESS,
      studentCourseOf (exampleCourse ''E'') IN_PROGRESS,
      studentCourseOf (exampleCourse ''B'') PLANNED]"
    by (simp add: studentCourses_def examplePlan2_def exampleSemester1_def exampleSemester2_def)
  have ids: "ident (course (studentCourseOf (exampleCourse code) st)) = code" for code st
    by (simp add: studentCourseOf_def exampleCourse_def)
  from cm have "courseMap (calculateStudentPositions exampleConfig examplePlan2 None) =
     map_of (rev (map (\<lambda>c. (ident (course c), c)) (studentCourses examplePlan2)))"
    by blast
  then have a: "courseMap (calculateStudentPositions exampleConfig examplePlan2 None) ''B'' =
     Some (studentCourseOf (exampleCourse ''B'') PLANNED)"
    and b: "courseMap (calculateStudentPositions exampleConfig examplePlan2 None) ''ghost-1-1'' = None"
    by (simp_all add: sc ids)
  from cm have "dom (courseMap (calculateStudentPositions exampleConfig examplePlan2 None)) =
     (\<lambda>c. ident (course c)) ` set (studentCourses examplePlan2)"
    by blast
  then have "dom (courseMap (calculateStudentPositions exampleConfig examplePlan2 None)) =
     {''A'', ''B'', ''C'', ''D'', ''E''}"
    by (auto simp: sc ids)
  with a b show ?thesis by blast
qed

section \<open>Properties of the timetable\<close>

subsection \<open>One schedule entry\<close>

lemma findIndex_Some:
  "findIndex P xs = Some i \<Longrightarrow> i < length xs \<and> P (xs ! i) \<and> (\<forall>j<i. \<not> P (xs ! j))"
proof (induction xs arbitrary: i)
  case Nil
  then show ?case by simp
next
  case (Cons a xs)
  show ?case
  proof (cases "P a")
    case True
    with Cons.prems show ?thesis by simp
  next
    case False
    with Cons.prems obtain k where k: "findIndex P xs = Some k" "i = Suc k"
      by auto
    from Cons.IH [OF k(1)] False k(2) show ?thesis
      by (auto simp: nth_Cons split: nat.splits)
  qed
qed

lemma findIndex_None: "findIndex P xs = None \<longleftrightarrow> (\<forall>x\<in>set xs. \<not> P x)"
  by (induction xs) auto

lemma rowsExist_nth: "rowsExist tt g \<Longrightarrow> i < length (TIME_SLOTS tt) \<Longrightarrow> g (slot_id (TIME_SLOTS tt ! i)) \<noteq> None"
  by (simp add: rowsExist_def list_all_length)

lemma writeCell_row:
  assumes "g slotId = Some row"
  shows "writeCell g slotId d v = Inr (g(slotId \<mapsto> row(d := v)))"
  using assms by (simp add: writeCell_def)

lemma rowsExist_upd: "rowsExist tt g \<Longrightarrow> rowsExist tt (g(slotId \<mapsto> row))"
  by (simp add: rowsExist_def list_all_iff)

lemma cell_upd:
  assumes "g slotId = Some row"
  shows "cell (g(slotId \<mapsto> row(d := v))) s' d' = (if s' = slotId \<and> d' = d then v else cell g s' d')"
  using assms by (simp add: cell_def)

lemma writeCell_exists:
  assumes "g slotId \<noteq> None"
  shows "\<exists>g'. writeCell g slotId d v = Inr g' \<and> (\<forall>tt. rowsExist tt g \<longrightarrow> rowsExist tt g')
     \<and> (\<forall>s' d'. cell g' s' d' = (if s' = slotId \<and> d' = d then v else cell g s' d'))"
proof -
  from assms obtain row where row: "g slotId = Some row" by auto
  show ?thesis
    using row writeCell_row [of g slotId row d v] cell_upd [of g slotId row d v]
      rowsExist_upd [of _ g slotId "row(d := v)"] by auto
qed

lemma applyEntry_effect:
  assumes rows: "rowsExist tt g"
  shows "\<exists>g'. applyEntry tt c entry g = Inr g' \<and> rowsExist tt g'
     \<and> (\<forall>s d. cell g' s d =
          (if d = day entry \<and> s \<in> set (entrySlots tt entry) then Some c else cell g s d))"
proof (cases "findIndex (\<lambda>slot. slot_id slot = startTime entry) (TIME_SLOTS tt)")
  case None
  then show ?thesis using rows by (simp add: applyEntry_def entrySlots_def)
next
  case (Some i)
  from findIndex_Some [OF Some] have i: "i < length (TIME_SLOTS tt)"
    and id: "slot_id (TIME_SLOTS tt ! i) = startTime entry" by auto
  from rowsExist_nth [OF rows i] id have "g (startTime entry) \<noteq> None" by simp
  with writeCell_exists [of g "startTime entry" "day entry" "Some c"]
  obtain g1 where g1: "writeCell g (startTime entry) (day entry) (Some c) = Inr g1"
    and rows1: "rowsExist tt g1"
    and cell1: "\<And>s d. cell g1 s d = (if s = startTime entry \<and> d = day entry then Some c else cell g s d)"
    using rows by blast
  show ?thesis
  proof (cases "i + 1 < length (TIME_SLOTS tt)")
    case False
    with Some g1 rows1 cell1 show ?thesis
      by (auto simp: applyEntry_def entrySlots_def)
  next
    case True
    from rowsExist_nth [OF rows1 True] have "g1 (slot_id (TIME_SLOTS tt ! (i + 1))) \<noteq> None" .
    with writeCell_exists [of g1 "slot_id (TIME_SLOTS tt ! (i + 1))" "day entry" "Some c"]
    obtain g2 where g2: "writeCell g1 (slot_id (TIME_SLOTS tt ! (i + 1))) (day entry) (Some c) = Inr g2"
      and rows2: "rowsExist tt g2"
      and cell2: "\<And>s d. cell g2 s d =
        (if s = slot_id (TIME_SLOTS tt ! (i + 1)) \<and> d = day entry then Some c else cell g1 s d)"
      using rows1 by blast
    have "applyEntry tt c entry g = Inr g2"
      using Some g1 g2 True by (simp add: applyEntry_def)
    moreover have "\<forall>s d. cell g2 s d =
          (if d = day entry \<and> s \<in> set (entrySlots tt entry) then Some c else cell g s d)"
      using Some True by (auto simp: cell1 cell2 entrySlots_def)
    ultimately show ?thesis using rows2 by blast
  qed
qed

subsection \<open>The loops\<close>

lemma forEach_invariant:
  assumes "\<And>a s. a \<in> set as \<Longrightarrow> I s \<Longrightarrow> \<exists>s'. f a s = Inr s' \<and> I s'" and "I s"
  shows "\<exists>s'. forEach f as s = Inr s' \<and> I s'"
  using assms
proof (induction as arbitrary: s)
  case Nil
  then show ?case by simp
next
  case (Cons a as)
  from Cons.prems(1) [of a s] Cons.prems(2) obtain s1 where s1: "f a s = Inr s1" "I s1"
    by auto
  from Cons.IH [of s1] Cons.prems(1) s1(2) obtain s' where "forEach f as s1 = Inr s'" "I s'"
    by auto
  with s1 show ?case by simp
qed

lemma forEach_writes:
  assumes step: "\<And>a g. I g \<Longrightarrow>
      \<exists>g'. f a g = Inr g' \<and> I g' \<and> cells g' = cells g ++ map_of (rev (W a))"
    and "I g"
  shows "\<exists>g'. forEach f as g = Inr g' \<and> I g' \<and>
      cells g' = cells g ++ map_of (rev (concat (map W as)))"
  using assms(2)
proof (induction as arbitrary: g)
  case Nil
  then show ?case by simp
next
  case (Cons a as)
  from step [OF Cons.prems, of a] obtain g1 where g1: "f a g = Inr g1" "I g1"
    "cells g1 = cells g ++ map_of (rev (W a))"
    by auto
  from Cons.IH [OF g1(2)] obtain g' where g': "forEach f as g1 = Inr g'" "I g'"
    "cells g' = cells g1 ++ map_of (rev (concat (map W as)))"
    by auto
  have "cells g' = cells g ++ map_of (rev (concat (map W (a # as))))"
    by (simp add: g'(3) g1(3) map_add_assoc)
  with g1 g' show ?case by simp
qed

lemma map_of_entryWrites:
  "map_of (rev (entryWrites tt c entry)) (s, d) =
     (if d = day entry \<and> s \<in> set (entrySlots tt entry) then Some c else None)"
proof -
  have "map_of (rev (map (\<lambda>slotId. ((slotId, d0), c)) slots)) (s, d) =
      (if d = d0 \<and> s \<in> set slots then Some c else None)" for slots d0
    by (induction slots) (auto simp: map_add_def split: option.splits)
  then show ?thesis by (simp add: entryWrites_def)
qed

lemma applyEntry_writes:
  assumes "rowsExist tt g"
  shows "\<exists>g'. applyEntry tt c entry g = Inr g' \<and> rowsExist tt g' \<and>
      cells g' = cells g ++ map_of (rev (entryWrites tt c entry))"
proof -
  from applyEntry_effect [OF assms, of c entry] obtain g' where
    g': "applyEntry tt c entry g = Inr g'" "rowsExist tt g'"
    and c: "\<And>s d. cell g' s d =
          (if d = day entry \<and> s \<in> set (entrySlots tt entry) then Some c else cell g s d)"
    by blast
  have "cells g' = cells g ++ map_of (rev (entryWrites tt c entry))"
    by (rule ext) (auto simp: cells_def c map_add_def map_of_entryWrites split: option.splits)
  with g' show ?thesis by blast
qed

lemma applyDefault_writes:
  assumes "rowsExist tt g"
  shows "\<exists>g'. applyDefault tt sd ovc c g = Inr g' \<and> rowsExist tt g' \<and>
      cells g' = cells g ++ map_of (rev
        (if ident (course c) \<in> ovc then []
         else (case courseTimes sd (ident (course c)) of
                 None \<Rightarrow> []
               | Some entries \<Rightarrow> concat (map (entryWrites tt c) entries))))"
proof (cases "ident (course c) \<in> ovc")
  case True
  with assms show ?thesis by (simp add: applyDefault_def)
next
  case False
  show ?thesis
  proof (cases "courseTimes sd (ident (course c))")
    case None
    with False assms show ?thesis by (simp add: applyDefault_def)
  next
    case (Some entries)
    from forEach_writes [of "rowsExist tt" "applyEntry tt c" "entryWrites tt c" g entries]
      applyEntry_writes assms
    have "\<exists>g'. forEach (applyEntry tt c) entries g = Inr g' \<and> rowsExist tt g' \<and>
        cells g' = cells g ++ map_of (rev (concat (map (entryWrites tt c) entries)))"
      by blast
    with False Some show ?thesis by (simp add: applyDefault_def)
  qed
qed

lemma applyOverride_writes:
  assumes "rowsExist tt g"
  shows "\<exists>g'. applyOverride tt cur ov g = Inr g' \<and> rowsExist tt g' \<and>
      cells g' = cells g ++ map_of (rev
        (case find (\<lambda>c. ident (course c) = o_courseId ov) cur of
           None \<Rightarrow> []
         | Some c \<Rightarrow> concat (map (entryWrites tt c) (o_schedule ov))))"
proof (cases "find (\<lambda>c. ident (course c) = o_courseId ov) cur")
  case None
  with assms show ?thesis by (simp add: applyOverride_def)
next
  case (Some c)
  from forEach_writes [of "rowsExist tt" "applyEntry tt c" "entryWrites tt c" g "o_schedule ov"]
    applyEntry_writes assms
  have "\<exists>g'. forEach (applyEntry tt c) (o_schedule ov) g = Inr g' \<and> rowsExist tt g' \<and>
      cells g' = cells g ++ map_of (rev (concat (map (entryWrites tt c) (o_schedule ov))))"
    by blast
  with Some show ?thesis by (simp add: applyOverride_def)
qed

lemma init_rows:
  fixes g :: schedule_grid
  shows "\<exists>g'. forEach (\<lambda>slot g. Inr (g(slot_id slot \<mapsto> Map.empty))) slots g = Inr g' \<and>
     (\<forall>s. g' s = (if s \<in> slot_id ` set slots then Some Map.empty else g s))"
proof (induction slots arbitrary: g)
  case Nil
  show ?case by simp
next
  case (Cons a slots)
  from Cons.IH [of "g(slot_id a \<mapsto> Map.empty)"] show ?case
    by auto
qed

lemma initSchedule_empty:
  "\<exists>g. initSchedule tt = Inr g \<and> rowsExist tt g \<and> cells g = Map.empty"
proof -
  let ?I = "\<lambda>g. rowsExist tt g \<and> (\<forall>s d. cell g s d = None)"
  from init_rows [of "TIME_SLOTS tt" "Map.empty :: schedule_grid"]
  obtain g0 :: schedule_grid where
    g0: "forEach (\<lambda>slot g. Inr (g(slot_id slot \<mapsto> Map.empty))) (TIME_SLOTS tt) Map.empty = Inr g0"
    and rows0: "\<And>s. g0 s = (if s \<in> slot_id ` set (TIME_SLOTS tt) then Some Map.empty else None)"
    by auto
  have I0: "?I g0"
    by (auto simp: rowsExist_def list_all_iff rows0 cell_def)
  have inner: "\<exists>g'. forEach (\<lambda>dayIndex g'. writeCell g' (slot_id slot) (DayIndex dayIndex) None) ds g = Inr g' \<and> ?I g'"
    if "slot \<in> set (TIME_SLOTS tt)" "?I g" for slot ds g
  proof (rule forEach_invariant [where I = ?I])
    show "?I g" by (rule that)
  next
    fix a s assume s: "?I s"
    with that(1) have "s (slot_id slot) \<noteq> None"
      by (auto simp: rowsExist_def list_all_iff)
    with writeCell_exists [of s "slot_id slot" a None] s
    show "\<exists>s'. writeCell s (slot_id slot) a None = Inr s' \<and> ?I s'"
      by auto
  qed
  have "\<exists>g. forEach (\<lambda>slot. forEach (\<lambda>dayIndex g'. writeCell g' (slot_id slot) (DayIndex dayIndex) None)
                     [0 ..< length (DAYS tt)]) (TIME_SLOTS tt) g0 = Inr g \<and> ?I g"
    by (rule forEach_invariant [where I = ?I]) (use inner I0 in auto)
  then obtain g where "initSchedule tt = Inr g" "?I g"
    using g0 by (auto simp: initSchedule_def)
  moreover from this have "cells g = Map.empty"
    by (auto simp: cells_def fun_eq_iff)
  ultimately show ?thesis by blast
qed

lemma courseSchedule_cells:
  "\<exists>g. courseSchedule tt sd cur ovs = Inr g \<and> rowsExist tt g \<and>
     cells g = map_of (rev (defaultWrites tt sd cur ovs @ overrideWrites tt cur ovs))"
proof -
  from initSchedule_empty [of tt] obtain g0 where
    g0: "initSchedule tt = Inr g0" "rowsExist tt g0" "cells g0 = Map.empty"
    by blast
  let ?ovc = "set (map o_courseId ovs)"
  from forEach_writes [of "rowsExist tt" "applyDefault tt sd ?ovc"
      "\<lambda>c. if ident (course c) \<in> ?ovc then []
         else (case courseTimes sd (ident (course c)) of
                 None \<Rightarrow> []
               | Some entries \<Rightarrow> concat (map (entryWrites tt c) entries))" g0 cur]
    applyDefault_writes [of tt _ sd ?ovc] g0(2)
  obtain g1 where g1: "forEach (applyDefault tt sd ?ovc) cur g0 = Inr g1" "rowsExist tt g1"
    "cells g1 = cells g0 ++ map_of (rev (defaultWrites tt sd cur ovs))"
    unfolding defaultWrites_def by blast
  from forEach_writes [of "rowsExist tt" "applyOverride tt cur"
      "\<lambda>ov. case find (\<lambda>c. ident (course c) = o_courseId ov) cur of
           None \<Rightarrow> []
         | Some c \<Rightarrow> concat (map (entryWrites tt c) (o_schedule ov))" g1 ovs]
    applyOverride_writes [of tt _ cur] g1(2)
  obtain g2 where g2: "forEach (applyOverride tt cur) ovs g1 = Inr g2" "rowsExist tt g2"
    "cells g2 = cells g1 ++ map_of (rev (overrideWrites tt cur ovs))"
    unfolding overrideWrites_def by blast
  have "courseSchedule tt sd cur ovs = Inr g2"
    using g0(1) g1(1) g2(1) by (simp add: courseSchedule_def)
  moreover have "cells g2 = map_of (rev (defaultWrites tt sd cur ovs @ overrideWrites tt cur ovs))"
    by (simp add: g2(3) g1(3) g0(3))
  ultimately show ?thesis using g2(2) by blast
qed

lemma defaultWrites_not_overridden:
  assumes "w \<in> set (defaultWrites tt sd cur ovs)"
  shows "ident (course (snd w)) \<notin> set (map o_courseId ovs)"
  using assms
  by (auto simp: defaultWrites_def entryWrites_def split: if_splits option.splits)

lemma overrideWrites_origin:
  assumes "((s, d), c) \<in> set (overrideWrites tt cur ovs)"
  shows "\<exists>ov\<in>set ovs. \<exists>e\<in>set (o_schedule ov).
     o_courseId ov = ident (course c) \<and> d = day e \<and> s \<in> set (entrySlots tt e)"
proof -
  from assms obtain ov c' e where ov: "ov \<in> set ovs"
    and f: "find (\<lambda>c. ident (course c) = o_courseId ov) cur = Some c'"
    and e: "e \<in> set (o_schedule ov)" and w: "((s, d), c) \<in> set (entryWrites tt c' e)"
    by (auto simp: overrideWrites_def split: option.splits) metis
  from w have "c = c'" "d = day e" "s \<in> set (entrySlots tt e)"
    by (auto simp: entryWrites_def)
  moreover from f have "ident (course c') = o_courseId ov"
    by (auto simp: find_Some_iff)
  ultimately show ?thesis using ov e by auto
qed

lemma example_idents [simp]:
  "ident (course exampleX) = ''X''" "ident (course exampleY) = ''Y''"
  by (simp_all add: exampleX_def exampleY_def studentCourseOf_def exampleCourse_def)

lemma exampleX_neq_Y [simp]: "exampleX \<noteq> exampleY" "exampleY \<noteq> exampleX"
  by (simp_all add: exampleX_def exampleY_def studentCourseOf_def exampleCourse_def)

lemma example_entrySlots:
  "entrySlots exampleTimetable \<lparr>day = d, startTime = ''08:00''\<rparr> = [''08:00'', ''09:40'']"
  "entrySlots exampleTimetable \<lparr>day = d, startTime = ''09:40''\<rparr> = [''09:40'', ''11:20'']"
  "entrySlots exampleTimetable \<lparr>day = d, startTime = ''11:20''\<rparr> = [''11:20'']"
  by (simp_all add: entrySlots_def exampleTimetable_def)

subsection \<open>The slots of an entry and the rule of the spec\<close>

lemma findIndex_expansion:
  "(case findIndex (\<lambda>slot. slot_id slot = s) xs of
      None \<Rightarrow> []
    | Some i \<Rightarrow> if i + 1 < length xs then [s, slot_id (xs ! (i + 1))] else [s]) =
   expansion (map slot_id xs) s"
proof (induction xs rule: induct_list012)
  case 1
  show ?case by simp
next
  case (2 a)
  show ?case by simp
next
  case (3 a b rest)
  show ?case
  proof (cases "slot_id a = s")
    case True
    then show ?thesis by simp
  next
    case False
    then show ?thesis
      using 3(2) by (cases "findIndex (\<lambda>slot. slot_id slot = s) (b # rest)") auto
  qed
qed

lemma entrySlots_expansion:
  "entrySlots tt e = expansion (map slot_id (TIME_SLOTS tt)) (startTime e)"
  unfolding entrySlots_def by (rule findIndex_expansion)

lemma expansion_no_match: "s \<notin> set ids \<Longrightarrow> expansion ids s = []"
  by (induction ids s rule: expansion.induct) auto

lemma expansion_first_match:
  assumes "i < length ids" and "ids ! i = s" and "\<forall>j<i. ids ! j \<noteq> s"
  shows "expansion ids s = (if i + 1 < length ids then [s, ids ! (i + 1)] else [s])"
  using assms
proof (induction ids s arbitrary: i rule: expansion.induct)
  case (1 s)
  then show ?case by simp
next
  case (2 a s)
  then show ?case by simp
next
  case (3 a b rest s)
  show ?case
  proof (cases "a = s")
    case True
    with 3(4) have "i = 0" by (cases i) auto
    with True show ?thesis by simp
  next
    case False
    with 3(3) obtain k where k: "i = Suc k" by (cases i) auto
    with 3(2-4) have "k < length (b # rest)" "(b # rest) ! k = s" "\<forall>j<k. (b # rest) ! j \<noteq> s"
      by auto
    from 3(1) [OF False this] k False show ?thesis by simp
  qed
qed

lemma fst_entryWrites:
  "map fst (entryWrites tt c e) = claimedCells tt [e]"
  by (simp add: entryWrites_def claimedCells_def entrySlots_expansion comp_def)

lemma claimedCells_append: "claimedCells tt (es @ es') = claimedCells tt es @ claimedCells tt es'"
  by (simp add: claimedCells_def)

lemma fst_entriesWrites:
  "map fst (concat (map (entryWrites tt c) es)) = claimedCells tt es"
proof (induction es)
  case Nil
  show ?case by (simp add: claimedCells_def)
next
  case (Cons e es)
  have "claimedCells tt (e # es) = claimedCells tt [e] @ claimedCells tt es"
    using claimedCells_append [of tt "[e]" es] by simp
  with Cons show ?case by (simp add: fst_entryWrites)
qed

lemma fst_defaultWrites:
  "map fst (defaultWrites tt sd cs ovs) = claimedCells tt (defaultEntries sd ovs cs)"
proof (induction cs)
  case Nil
  show ?case by (simp add: defaultWrites_def defaultEntries_def claimedCells_def)
next
  case (Cons c cs)
  have dw: "defaultWrites tt sd (c # cs) ovs = defaultWrites tt sd [c] ovs @ defaultWrites tt sd cs ovs"
    and de: "defaultEntries sd ovs (c # cs) = defaultEntries sd ovs [c] @ defaultEntries sd ovs cs"
    by (simp_all add: defaultWrites_def defaultEntries_def)
  have "map fst (defaultWrites tt sd [c] ovs) = claimedCells tt (defaultEntries sd ovs [c])"
    by (auto simp: defaultWrites_def defaultEntries_def fst_entriesWrites claimedCells_def
        split: option.splits)
  with Cons show ?case
    unfolding dw de by (simp add: claimedCells_append)
qed

lemma find_list_ex: "find P xs = None \<longleftrightarrow> \<not> list_ex P xs"
  by (auto simp: find_None_iff list_ex_iff)

lemma fst_overrideWrites:
  "map fst (overrideWrites tt cur ovs) = claimedCells tt (overrideEntries cur ovs)"
proof (induction ovs)
  case Nil
  show ?case by (simp add: overrideWrites_def overrideEntries_def claimedCells_def)
next
  case (Cons ov ovs)
  have ow: "overrideWrites tt cur (ov # ovs) = overrideWrites tt cur [ov] @ overrideWrites tt cur ovs"
    and oe: "overrideEntries cur (ov # ovs) = overrideEntries cur [ov] @ overrideEntries cur ovs"
    by (simp_all add: overrideWrites_def overrideEntries_def)
  have "map fst (overrideWrites tt cur [ov]) = claimedCells tt (overrideEntries cur [ov])"
  proof (cases "find (\<lambda>c. ident (course c) = o_courseId ov) cur")
    case None
    then show ?thesis
      using find_list_ex [of "\<lambda>c. ident (course c) = o_courseId ov" cur]
      by (simp add: overrideWrites_def overrideEntries_def claimedCells_def)
  next
    case (Some c)
    then have "list_ex (\<lambda>c. ident (course c) = o_courseId ov) cur"
      using find_list_ex [of "\<lambda>c. ident (course c) = o_courseId ov" cur] by auto
    with Some show ?thesis
      by (simp add: overrideWrites_def overrideEntries_def fst_entriesWrites)
  qed
  with Cons show ?case
    unfolding ow oe by (simp add: claimedCells_append)
qed

lemma map_of_rev_middle:
  assumes "k \<notin> fst ` set L" and "k \<in> fst ` set E" and "\<forall>kv\<in>set E. snd kv = c"
  shows "map_of (rev (A @ E @ L)) k = Some c"
proof -
  have "map_of (rev L) k = None"
    using assms(1) by (simp add: map_of_eq_None_iff)
  moreover from assms(2) have "k \<in> fst ` set (rev E)" by simp
  then obtain v where v: "map_of (rev E) k = Some v"
    by (metis domD dom_map_of_conv_image_fst)
  then have "(k, v) \<in> set E"
    using map_of_SomeD by fastforce
  with assms(3) have "v = c" by auto
  ultimately show ?thesis
    using v by (simp add: map_add_def)
qed

lemma example_ids: "map slot_id (TIME_SLOTS exampleTimetable) = [''08:00'', ''09:40'', ''11:20'']"
  by (simp add: exampleTimetable_def)

subsection \<open>Two-slot expansion\<close>

text \<open>
  Claim C2. Let \<open>c\<close> be a current (in progress) course without an override and \<open>e\<close>
  an entry (day d, start time s) of its default times. Then courseSchedule returns a grid
  and raises nothing, and in that grid: every slot of the expansion of s (the slot s and
  the slot that follows it in the list of time slots, only s when s is the last slot, no
  slot when no time slot has the id s) holds \<open>c\<close> on day d, unless an entry that is
  processed later (a later default entry of \<open>c\<close>, a default entry of a later course
  without override, or an entry of an override) claims that cell; and no cell holds a
  course unless a processed entry claims it, so that an entry whose start time matches no
  slot leaves the grid as it is. The last two parts say what the expansion is in terms
  of the index of the first slot with the id s.
\<close>

theorem two_slot_expansion:
  assumes "cur = before @ c # after"
    and "ident (course c) \<notin> set (map o_courseId ovs)"
    and "courseTimes sd (ident (course c)) = Some (es1 @ e # es2)"
  shows "\<exists>g. courseSchedule tt sd cur ovs = Inr g
     \<and> (\<forall>s\<in>set (expansion (map slot_id (TIME_SLOTS tt)) (startTime e)).
          (s, day e) \<notin> set (claimedCells tt
             (es2 @ defaultEntries sd ovs after @ overrideEntries cur ovs)) \<longrightarrow>
          cell g s (day e) = Some c)
     \<and> (\<forall>s d c'. cell g s d = Some c' \<longrightarrow>
          (s, d) \<in> set (claimedCells tt (defaultEntries sd ovs cur @ overrideEntries cur ovs)))
     \<and> (startTime e \<notin> slot_id ` set (TIME_SLOTS tt) \<longrightarrow>
          expansion (map slot_id (TIME_SLOTS tt)) (startTime e) = [])
     \<and> (\<forall>i. i < length (TIME_SLOTS tt) \<and> slot_id (TIME_SLOTS tt ! i) = startTime e \<and>
            (\<forall>j<i. slot_id (TIME_SLOTS tt ! j) \<noteq> startTime e) \<longrightarrow>
          expansion (map slot_id (TIME_SLOTS tt)) (startTime e) =
            (if i + 1 < length (TIME_SLOTS tt)
             then [startTime e, slot_id (TIME_SLOTS tt ! (i + 1))] else [startTime e]))"
proof -
  let ?dw = "defaultWrites tt sd cur ovs" and ?ow = "overrideWrites tt cur ovs"
  let ?ids = "map slot_id (TIME_SLOTS tt)"
  from courseSchedule_cells [of tt sd cur ovs] obtain g where
    g: "courseSchedule tt sd cur ovs = Inr g" and cs: "cells g = map_of (rev (?dw @ ?ow))"
    by blast
  have cell: "cell g s d = map_of (rev (?dw @ ?ow)) (s, d)" for s d
    using cs by (simp add: cells_def fun_eq_iff)
  let ?A = "defaultWrites tt sd before ovs @ concat (map (entryWrites tt c) es1)"
  let ?E = "entryWrites tt c e"
  let ?L = "concat (map (entryWrites tt c) es2) @ defaultWrites tt sd after ovs @ ?ow"
  have "defaultWrites tt sd [c] ovs = concat (map (entryWrites tt c) (es1 @ e # es2))"
    using assms(2,3) by (simp add: defaultWrites_def)
  moreover have "?dw = defaultWrites tt sd before ovs @ defaultWrites tt sd [c] ovs @
      defaultWrites tt sd after ovs"
    unfolding assms(1) by (simp add: defaultWrites_def)
  ultimately have split: "?dw @ ?ow = ?A @ ?E @ ?L"
    by simp
  have later: "fst ` set ?L =
      set (claimedCells tt (es2 @ defaultEntries sd ovs after @ overrideEntries cur ovs))"
  proof -
    have "fst ` set ?L = set (map fst ?L)" by (simp only: set_map)
    also have "map fst ?L = claimedCells tt es2 @ claimedCells tt (defaultEntries sd ovs after) @
        claimedCells tt (overrideEntries cur ovs)"
      by (simp only: map_append fst_entriesWrites fst_defaultWrites fst_overrideWrites)
    finally show ?thesis by (simp add: claimedCells_append)
  qed
  have written: "cell g s (day e) = Some c"
    if "s \<in> set (expansion ?ids (startTime e))"
      "(s, day e) \<notin> set (claimedCells tt
         (es2 @ defaultEntries sd ovs after @ overrideEntries cur ovs))" for s
  proof -
    have "(s, day e) \<in> fst ` set ?E"
      using that(1) by (force simp: entryWrites_def entrySlots_expansion)
    moreover have "\<forall>kv\<in>set ?E. snd kv = c"
      by (auto simp: entryWrites_def)
    moreover have "(s, day e) \<notin> fst ` set ?L"
      using that(2) later by simp
    ultimately show ?thesis
      unfolding cell split by (intro map_of_rev_middle)
  qed
  have only: "(s, d) \<in> set (claimedCells tt (defaultEntries sd ovs cur @ overrideEntries cur ovs))"
    if "cell g s d = Some c'" for s d c'
  proof -
    from that have "((s, d), c') \<in> set (rev (?dw @ ?ow))"
      unfolding cell by (rule map_of_SomeD)
    then have "(s, d) \<in> set (map fst (?dw @ ?ow))" by force
    then show ?thesis
      by (simp only: map_append fst_defaultWrites fst_overrideWrites claimedCells_append)
  qed
  have none: "startTime e \<notin> slot_id ` set (TIME_SLOTS tt) \<longrightarrow> expansion ?ids (startTime e) = []"
    using expansion_no_match [of "startTime e" ?ids] by simp
  have first: "\<forall>i. i < length (TIME_SLOTS tt) \<and> slot_id (TIME_SLOTS tt ! i) = startTime e \<and>
            (\<forall>j<i. slot_id (TIME_SLOTS tt ! j) \<noteq> startTime e) \<longrightarrow>
          expansion ?ids (startTime e) =
            (if i + 1 < length (TIME_SLOTS tt)
             then [startTime e, slot_id (TIME_SLOTS tt ! (i + 1))] else [startTime e])"
  proof (intro allI impI, elim conjE)
    fix i
    assume i: "i < length (TIME_SLOTS tt)" "slot_id (TIME_SLOTS tt ! i) = startTime e"
      "\<forall>j<i. slot_id (TIME_SLOTS tt ! j) \<noteq> startTime e"
    then have "i < length ?ids" "?ids ! i = startTime e" "\<forall>j<i. ?ids ! j \<noteq> startTime e"
      by auto
    from expansion_first_match [OF this] i(1) show "expansion ?ids (startTime e) =
            (if i + 1 < length (TIME_SLOTS tt)
             then [startTime e, slot_id (TIME_SLOTS tt ! (i + 1))] else [startTime e])"
      by simp
  qed
  from g written only none first show ?thesis by blast
qed

text \<open>
  The example of the spec: slots 08:00, 09:40, 11:20 and the default time of X on day 1 at
  08:00 give a grid with X at 08:00 and 09:40 on day 1 and nothing else. With default
  times at 11:20 on day 3 (the last slot) and at 10:00 on day 4 (no slot), the grid has X
  at 11:20 on day 3 only.
\<close>

theorem two_slot_expansion_witness:
  "(\<exists>g. courseSchedule exampleTimetable exampleSchedule [exampleX] [] = Inr g
      \<and> cell g ''08:00'' (DayIndex 1) = Some exampleX
      \<and> cell g ''09:40'' (DayIndex 1) = Some exampleX
      \<and> cell g ''11:20'' (DayIndex 1) = None
      \<and> cell g ''08:00'' (DayIndex 2) = None)
   \<and> (\<exists>g. courseSchedule exampleTimetable exampleSchedule2 [exampleX] [] = Inr g
      \<and> cell g ''11:20'' (DayIndex 3) = Some exampleX
      \<and> cell g ''09:40'' (DayIndex 3) = None
      \<and> cell g ''08:00'' (DayIndex 4) = None
      \<and> cell g ''09:40'' (DayIndex 4) = None
      \<and> cell g ''11:20'' (DayIndex 4) = None)"
proof -
  let ?e1 = "\<lparr>day = DayIndex 1, startTime = ''08:00''\<rparr>"
  have "[exampleX] = [] @ exampleX # []"
    "ident (course exampleX) \<notin> set (map o_courseId [])"
    "courseTimes exampleSchedule (ident (course exampleX)) = Some ([] @ ?e1 # [])"
    by (simp_all add: exampleSchedule_def)
  from two_slot_expansion [OF this, of exampleTimetable]
  obtain g where g: "courseSchedule exampleTimetable exampleSchedule [exampleX] [] = Inr g"
    and w: "\<forall>s\<in>set (expansion (map slot_id (TIME_SLOTS exampleTimetable)) (startTime ?e1)).
          (s, day ?e1) \<notin> set (claimedCells exampleTimetable
             ([] @ defaultEntries exampleSchedule [] [] @ overrideEntries [exampleX] [])) \<longrightarrow>
          cell g s (day ?e1) = Some exampleX"
    and o: "\<forall>s d c'. cell g s d = Some c' \<longrightarrow>
          (s, d) \<in> set (claimedCells exampleTimetable
            (defaultEntries exampleSchedule [] [exampleX] @ overrideEntries [exampleX] []))"
    by blast
  have claimed: "claimedCells exampleTimetable
      (defaultEntries exampleSchedule [] [exampleX] @ overrideEntries [exampleX] []) =
      [(''08:00'', DayIndex 1), (''09:40'', DayIndex 1)]"
    by (simp add: claimedCells_def defaultEntries_def overrideEntries_def exampleSchedule_def
        example_ids)
  from w have "cell g ''08:00'' (DayIndex 1) = Some exampleX"
    "cell g ''09:40'' (DayIndex 1) = Some exampleX"
    by (simp_all add: example_ids claimedCells_def defaultEntries_def overrideEntries_def)
  moreover have empty: "cell g s d = None"
    if "(s, d) \<notin> set [(''08:00'', DayIndex 1), (''09:40'', DayIndex 1)]" for s d
  proof (cases "cell g s d")
    case None
    then show ?thesis .
  next
    case (Some c')
    with o have "(s, d) \<in> set (claimedCells exampleTimetable
            (defaultEntries exampleSchedule [] [exampleX] @ overrideEntries [exampleX] []))"
      by blast
    with that show ?thesis unfolding claimed by blast
  qed
  have "cell g ''11:20'' (DayIndex 1) = None" "cell g ''08:00'' (DayIndex 2) = None"
    by (rule empty, simp)+
  moreover note this
  ultimately have a: "\<exists>g. courseSchedule exampleTimetable exampleSchedule [exampleX] [] = Inr g
      \<and> cell g ''08:00'' (DayIndex 1) = Some exampleX
      \<and> cell g ''09:40'' (DayIndex 1) = Some exampleX
      \<and> cell g ''11:20'' (DayIndex 1) = None
      \<and> cell g ''08:00'' (DayIndex 2) = None"
    using g by blast
  let ?e2 = "\<lparr>day = DayIndex 3, startTime = ''11:20''\<rparr>"
  let ?e3 = "\<lparr>day = DayIndex 4, startTime = ''10:00''\<rparr>"
  have "[exampleX] = [] @ exampleX # []"
    "ident (course exampleX) \<notin> set (map o_courseId [])"
    "courseTimes exampleSchedule2 (ident (course exampleX)) = Some ([] @ ?e2 # [?e3])"
    by (simp_all add: exampleSchedule2_def)
  from two_slot_expansion [OF this, of exampleTimetable]
  obtain h where h: "courseSchedule exampleTimetable exampleSchedule2 [exampleX] [] = Inr h"
    and w2: "\<forall>s\<in>set (expansion (map slot_id (TIME_SLOTS exampleTimetable)) (startTime ?e2)).
          (s, day ?e2) \<notin> set (claimedCells exampleTimetable
             ([?e3] @ defaultEntries exampleSchedule2 [] [] @ overrideEntries [exampleX] [])) \<longrightarrow>
          cell h s (day ?e2) = Some exampleX"
    and o2: "\<forall>s d c'. cell h s d = Some c' \<longrightarrow>
          (s, d) \<in> set (claimedCells exampleTimetable
            (defaultEntries exampleSchedule2 [] [exampleX] @ overrideEntries [exampleX] []))"
    by blast
  have claimed2: "claimedCells exampleTimetable
      (defaultEntries exampleSchedule2 [] [exampleX] @ overrideEntries [exampleX] []) =
      [(''11:20'', DayIndex 3)]"
    by (simp add: claimedCells_def defaultEntries_def overrideEntries_def exampleSchedule2_def
        example_ids)
  from w2 have "cell h ''11:20'' (DayIndex 3) = Some exampleX"
    by (simp add: example_ids claimedCells_def defaultEntries_def overrideEntries_def)
  moreover have empty2: "cell h s d = None" if "(s, d) \<notin> set [(''11:20'', DayIndex 3)]" for s d
  proof (cases "cell h s d")
    case None
    then show ?thesis .
  next
    case (Some c')
    with o2 have "(s, d) \<in> set (claimedCells exampleTimetable
            (defaultEntries exampleSchedule2 [] [exampleX] @ overrideEntries [exampleX] []))"
      by blast
    with that show ?thesis unfolding claimed2 by blast
  qed
  have "cell h ''09:40'' (DayIndex 3) = None" "cell h ''08:00'' (DayIndex 4) = None"
    "cell h ''09:40'' (DayIndex 4) = None" "cell h ''11:20'' (DayIndex 4) = None"
    by (rule empty2, simp)+
  moreover note this
  ultimately have b: "\<exists>g. courseSchedule exampleTimetable exampleSchedule2 [exampleX] [] = Inr g
      \<and> cell g ''11:20'' (DayIndex 3) = Some exampleX
      \<and> cell g ''09:40'' (DayIndex 3) = None
      \<and> cell g ''08:00'' (DayIndex 4) = None
      \<and> cell g ''09:40'' (DayIndex 4) = None
      \<and> cell g ''11:20'' (DayIndex 4) = None"
    using h by blast
  from a b show ?thesis by blast
qed

subsection \<open>Override precedence\<close>

text \<open>
  Claim C3. Let the course identifier X have a professor override. Then the default pass
  writes no course of identifier X, and every cell of the resulting grid that holds a
  course of identifier X is a cell of a schedule entry of an override for X: its day is
  the day of the entry and its slot is one of the (at most two) slots of the entry.
\<close>

theorem override_precedence:
  assumes "courseSchedule tt sd cur ovs = Inr g" and "X \<in> set (map o_courseId ovs)"
  shows "(\<forall>w\<in>set (defaultWrites tt sd cur ovs). ident (course (snd w)) \<noteq> X)
     \<and> (\<forall>s d c. cell g s d = Some c \<and> ident (course c) = X \<longrightarrow>
          (\<exists>ov\<in>set ovs. \<exists>e\<in>set (o_schedule ov).
             o_courseId ov = X \<and> d = day e \<and> s \<in> set (entrySlots tt e)))"
proof -
  let ?dw = "defaultWrites tt sd cur ovs" and ?ow = "overrideWrites tt cur ovs"
  have a: "\<forall>w\<in>set ?dw. ident (course (snd w)) \<noteq> X"
    using defaultWrites_not_overridden [of _ tt sd cur ovs] assms(2) by blast
  from courseSchedule_cells [of tt sd cur ovs] assms(1)
  have c: "cells g = map_of (rev (?dw @ ?ow))" by auto
  have b: "\<exists>ov\<in>set ovs. \<exists>e\<in>set (o_schedule ov).
             o_courseId ov = X \<and> d = day e \<and> s \<in> set (entrySlots tt e)"
    if "cell g s d = Some c" "ident (course c) = X" for s d c
  proof -
    from that(1) c have "map_of (rev (?dw @ ?ow)) (s, d) = Some c"
      by (simp add: cells_def fun_eq_iff)
    then have "((s, d), c) \<in> set (rev (?dw @ ?ow))"
      by (rule map_of_SomeD)
    then have "((s, d), c) \<in> set ?dw \<or> ((s, d), c) \<in> set ?ow" by auto
    then show ?thesis
    proof
      assume "((s, d), c) \<in> set ?dw"
      with a that(2) show ?thesis by force
    next
      assume "((s, d), c) \<in> set ?ow"
      from overrideWrites_origin [OF this] that(2) show ?thesis by simp
    qed
  qed
  from a b show ?thesis by blast
qed

text \<open>
  The course X has the default time 08:00 on day 1 and an override at 09:40 on day 2: the
  grid holds X at 09:40 and 11:20 on day 2, and not on day 1.
\<close>

theorem override_precedence_witness:
  "\<exists>g. courseSchedule exampleTimetable exampleSchedule [exampleX] [exampleOverride] = Inr g
     \<and> cell g ''08:00'' (DayIndex 1) \<noteq> Some exampleX \<and> cell g ''09:40'' (DayIndex 1) \<noteq> Some exampleX
     \<and> cell g ''09:40'' (DayIndex 2) = Some exampleX \<and> cell g ''11:20'' (DayIndex 2) = Some exampleX"
proof -
  from courseSchedule_cells [of exampleTimetable exampleSchedule "[exampleX]" "[exampleOverride]"]
  obtain g where g: "courseSchedule exampleTimetable exampleSchedule [exampleX] [exampleOverride] = Inr g"
    and c: "cells g = map_of (rev
        (defaultWrites exampleTimetable exampleSchedule [exampleX] [exampleOverride] @
         overrideWrites exampleTimetable [exampleX] [exampleOverride]))"
    by blast
  have X: "''X'' \<in> set (map o_courseId [exampleOverride])"
    by (simp add: exampleOverride_def)
  note op = override_precedence [OF g X]
  have no: "cell g s (DayIndex 1) \<noteq> Some exampleX" for s
  proof
    assume "cell g s (DayIndex 1) = Some exampleX"
    then have "cell g s (DayIndex 1) = Some exampleX \<and> ident (course exampleX) = ''X''"
      by simp
    with op have "\<exists>ov\<in>set [exampleOverride]. \<exists>e\<in>set (o_schedule ov).
        o_courseId ov = ''X'' \<and> DayIndex 1 = day e \<and> s \<in> set (entrySlots exampleTimetable e)"
      by blast
    then show False by (simp add: exampleOverride_def)
  qed
  have "overrideWrites exampleTimetable [exampleX] [exampleOverride] =
      [((''09:40'', DayIndex 2), exampleX), ((''11:20'', DayIndex 2), exampleX)]"
    by (simp add: overrideWrites_def exampleOverride_def entryWrites_def example_entrySlots)
  moreover have "defaultWrites exampleTimetable exampleSchedule [exampleX] [exampleOverride] = []"
    by (simp add: defaultWrites_def exampleOverride_def)
  ultimately have "cells g = map_of [((''11:20'', DayIndex 2), exampleX), ((''09:40'', DayIndex 2), exampleX)]"
    using c by simp
  then have "cell g ''09:40'' (DayIndex 2) = Some exampleX" "cell g ''11:20'' (DayIndex 2) = Some exampleX"
    by (simp_all add: cells_def fun_eq_iff)
  with g no show ?thesis by blast
qed

subsection \<open>Overlapping entries\<close>

text \<open>
  Claim C7. courseSchedule returns a grid and no error or report. A cell of the grid holds
  the course of the last write to that cell, in the order of processing: the default
  entries of the current courses in their order, then the entries of the overrides. In
  particular the last write among several to the same cell wins, and a cell that an
  override entry writes holds a course written by an override entry.
\<close>

theorem last_write_wins:
  "\<exists>g. courseSchedule tt sd cur ovs = Inr g
     \<and> (\<forall>s d. cell g s d =
          map_of (rev (defaultWrites tt sd cur ovs @ overrideWrites tt cur ovs)) (s, d))
     \<and> (\<forall>ws c ws' s d.
          defaultWrites tt sd cur ovs @ overrideWrites tt cur ovs = ws @ ((s, d), c) # ws' \<and>
          (s, d) \<notin> fst ` set ws' \<longrightarrow> cell g s d = Some c)
     \<and> (\<forall>s d. (s, d) \<in> fst ` set (overrideWrites tt cur ovs) \<longrightarrow>
          (\<exists>c. cell g s d = Some c \<and> ((s, d), c) \<in> set (overrideWrites tt cur ovs)))"
proof -
  let ?dw = "defaultWrites tt sd cur ovs" and ?ow = "overrideWrites tt cur ovs"
  from courseSchedule_cells [of tt sd cur ovs] obtain g where
    g: "courseSchedule tt sd cur ovs = Inr g" and c: "cells g = map_of (rev (?dw @ ?ow))"
    by blast
  have cell: "cell g s d = map_of (rev (?dw @ ?ow)) (s, d)" for s d
    using c by (simp add: cells_def fun_eq_iff)
  have last: "cell g s d = Some c"
    if "?dw @ ?ow = ws @ ((s, d), c) # ws'" "(s, d) \<notin> fst ` set ws'" for ws c ws' s d
  proof -
    have "map_of (rev ws') (s, d) = None"
      using that(2) by (simp add: map_of_eq_None_iff)
    then show ?thesis
      unfolding cell that(1) by (simp add: map_add_def)
  qed
  have over: "\<exists>c. cell g s d = Some c \<and> ((s, d), c) \<in> set ?ow"
    if "(s, d) \<in> fst ` set ?ow" for s d
  proof -
    from that have "(s, d) \<in> fst ` set (rev ?ow)" by simp
    then obtain c where m: "map_of (rev ?ow) (s, d) = Some c"
      by (metis domD dom_map_of_conv_image_fst)
    then have "((s, d), c) \<in> set ?ow"
      using map_of_SomeD by fastforce
    moreover have "cell g s d = Some c"
      unfolding cell using m by (simp add: map_add_def)
    ultimately show ?thesis by blast
  qed
  from g cell last over show ?thesis by blast
qed

text \<open>
  The courses X (08:00 on day 1) and Y (09:40 on day 1) both claim the cell of 09:40 on
  day 1: it holds Y, the course processed later.
\<close>

theorem last_write_wins_witness:
  "\<exists>g. courseSchedule exampleTimetable exampleSchedule [exampleX, exampleY] [] = Inr g
     \<and> cell g ''08:00'' (DayIndex 1) = Some exampleX \<and> cell g ''09:40'' (DayIndex 1) = Some exampleY
     \<and> cell g ''11:20'' (DayIndex 1) = Some exampleY"
proof -
  have dw: "defaultWrites exampleTimetable exampleSchedule [exampleX, exampleY] [] =
      [((''08:00'', DayIndex 1), exampleX), ((''09:40'', DayIndex 1), exampleX),
       ((''09:40'', DayIndex 1), exampleY), ((''11:20'', DayIndex 1), exampleY)]"
    by (simp add: defaultWrites_def exampleSchedule_def entryWrites_def example_entrySlots)
  have ow: "overrideWrites exampleTimetable [exampleX, exampleY] [] = []"
    by (simp add: overrideWrites_def)
  from last_write_wins [of exampleTimetable exampleSchedule "[exampleX, exampleY]" "[]"]
  obtain g where g: "courseSchedule exampleTimetable exampleSchedule [exampleX, exampleY] [] = Inr g"
    and c: "\<And>s d. cell g s d =
          map_of (rev (defaultWrites exampleTimetable exampleSchedule [exampleX, exampleY] [] @
            overrideWrites exampleTimetable [exampleX, exampleY] [])) (s, d)"
    by blast
  have "cell g ''08:00'' (DayIndex 1) = Some exampleX" "cell g ''09:40'' (DayIndex 1) = Some exampleY"
    "cell g ''11:20'' (DayIndex 1) = Some exampleY"
    unfolding c dw ow by simp_all
  with g show ?thesis by blast
qed

subsection \<open>Parsing the schedule of a professor\<close>

lemma split_not_Nil [simp]: "split sep cs \<noteq> []"
  by (induction cs) (auto split: list.splits)

lemma split_head: "\<exists>ws. split sep cs = takeWhile (\<lambda>c. c \<noteq> sep) cs # ws"
  by (induction cs) (auto split: list.splits)

lemma split_no_sep: "sep \<notin> set w \<Longrightarrow> split sep w = [w]"
  by (induction w) (auto split: list.splits)

lemma split_append: "sep \<notin> set w \<Longrightarrow> split sep (w @ sep # cs) = w # split sep cs"
  by (induction w) (auto split: list.splits)

lemma takeWhile_no_sep:
  "sep \<notin> set w \<Longrightarrow> takeWhile (\<lambda>c. c \<noteq> sep) (w @ cs) = w @ takeWhile (\<lambda>c. c \<noteq> sep) cs"
  by (induction w) auto

lemma split_join:
  assumes "ws \<noteq> []" and "\<forall>w\<in>set ws. sep \<notin> set w"
  shows "split sep (join sep ws) = ws"
  using assms
proof (induction sep ws rule: join.induct)
  case (1 sep)
  then show ?case by simp
next
  case (2 sep w)
  then show ?case by (simp add: split_no_sep)
next
  case (3 sep w v ws)
  then show ?case by (simp add: split_append)
qed

lemma set_join: "set (join sep ws) \<subseteq> insert sep (\<Union>w\<in>set ws. set w)"
  by (induction sep ws rule: join.induct) auto

lemma fold_days:
  "fold (\<lambda>dayName entries.
       case (case objectGet m dayName of
               Undefined \<Rightarrow> None
             | Own i \<Rightarrow> Some (DayIndex i)
             | Inherited k \<Rightarrow> Some (InheritedProperty k)) of
         None \<Rightarrow> entries
       | Some dayIndex \<Rightarrow> entries @ [\<lparr>day = dayIndex, startTime = t\<rparr>]) ds acc =
   acc @ concat (map (\<lambda>dn. case objectGet m dn of
                       Undefined \<Rightarrow> []
                     | Own i \<Rightarrow> [\<lparr>day = DayIndex i, startTime = t\<rparr>]
                     | Inherited k \<Rightarrow> [\<lparr>day = InheritedProperty k, startTime = t\<rparr>]) ds)"
  by (induction ds arbitrary: acc) (auto split: property.splits)

lemma scheduleEntries_form:
  assumes days: "ds \<noteq> []" "\<forall>dn\<in>set ds. CHR ''/'' \<notin> set dn \<and> CHR '' '' \<notin> set dn"
    and start: "t \<noteq> []" "CHR ''-'' \<notin> set t" "CHR '' '' \<notin> set t"
  shows "scheduleEntries tt (join CHR ''/'' ds @ CHR '' '' # t @ CHR ''-'' # e) =
     concat (map (dayEntries tt t) ds)"
proof -
  let ?daysPart = "join CHR ''/'' ds"
  let ?text = "?daysPart @ CHR '' '' # t @ CHR ''-'' # e"
  have "CHR '' '' \<notin> set ?daysPart"
    using set_join [of "CHR ''/''" ds] days(2) by auto
  then have "split CHR '' '' ?text = ?daysPart # split CHR '' '' (t @ CHR ''-'' # e)"
    by (rule split_append)
  moreover obtain ws where "split CHR '' '' (t @ CHR ''-'' # e) =
      takeWhile (\<lambda>c. c \<noteq> CHR '' '') (t @ CHR ''-'' # e) # ws"
    using split_head by blast
  moreover have "takeWhile (\<lambda>c. c \<noteq> CHR '' '') (t @ CHR ''-'' # e) =
      t @ CHR ''-'' # takeWhile (\<lambda>c. c \<noteq> CHR '' '') e"
    using start(3) by (simp add: takeWhile_no_sep)
  ultimately have parts: "split CHR '' '' ?text =
      ?daysPart # (t @ CHR ''-'' # takeWhile (\<lambda>c. c \<noteq> CHR '' '') e) # ws"
    by simp
  have time: "split CHR ''-'' (t @ CHR ''-'' # takeWhile (\<lambda>c. c \<noteq> CHR '' '') e) =
      t # split CHR ''-'' (takeWhile (\<lambda>c. c \<noteq> CHR '' '') e)"
    using start(2) by (rule split_append)
  have daysList: "split CHR ''/'' ?daysPart = ds"
    using days by (intro split_join) auto
  have "(\<lambda>dn. case objectGet (DAYS_MAP tt) dn of
                       Undefined \<Rightarrow> []
                     | Own i \<Rightarrow> [\<lparr>day = DayIndex i, startTime = t\<rparr>]
                     | Inherited k \<Rightarrow> [\<lparr>day = InheritedProperty k, startTime = t\<rparr>]) =
      dayEntries tt t"
    by (rule ext) (simp add: dayEntries_def)
  then show ?thesis
    using start(1)
    by (simp add: scheduleEntries_def parts time daysList fold_days cong: option.case_cong)
qed

lemma dayEntries_own:
  "dayName \<notin> set objectPrototypeKeys \<Longrightarrow>
   dayEntries tt t dayName =
     (case DAYS_MAP tt dayName of None \<Rightarrow> [] | Some i \<Rightarrow> [\<lparr>day = DayIndex i, startTime = t\<rparr>])"
  by (simp add: dayEntries_def objectGet_def split: option.splits)

lemma dayEntries_inherited:
  "DAYS_MAP tt dayName = None \<Longrightarrow> dayName \<in> set objectPrototypeKeys \<Longrightarrow>
   dayEntries tt t dayName = [\<lparr>day = InheritedProperty dayName, startTime = t\<rparr>]"
  by (simp add: dayEntries_def objectGet_def)

text \<open>
  What holds: let the professor be found for the course, with a schedule text made of day
  names joined by /, a space, a start time, a dash and an end text, where no day name
  contains / or a space and the start time is not empty and contains no dash or space.
  Then handleProfessorSelect replaces the overrides of the course by one override whose
  schedule has, in the order of the day names, the entries of the day names at the start
  time; the end text is arbitrary and has no influence. A day name that is an own
  property of the day map gives one entry with its day index; a day name that is neither
  in the day map nor a property of \<^verbatim>\<open>Object.prototype\<close> gives none (lemma
  \<open>dayEntries_own\<close>).
\<close>

lemma professor_schedule_parsing:
  assumes "professors sd = Some byCourse" and "byCourse (ident (course c)) = Some ps"
    and "find (\<lambda>p. p_professorId p = professorId) ps = Some pd"
    and "p_schedule pd = join CHR ''/'' ds @ CHR '' '' # t @ CHR ''-'' # e"
    and "ds \<noteq> []" and "\<forall>dn\<in>set ds. CHR ''/'' \<notin> set dn \<and> CHR '' '' \<notin> set dn"
    and "t \<noteq> []" and "CHR ''-'' \<notin> set t" and "CHR '' '' \<notin> set t"
  shows "handleProfessorSelect tt sd prev c professorId =
       Inr (filter (\<lambda>ov. o_courseId ov \<noteq> ident (course c)) prev @
            [\<lparr>o_courseId = ident (course c), o_professorId = professorId,
              o_schedule = concat (map (dayEntries tt t) ds)\<rparr>])"
proof -
  have "scheduleEntries tt (p_schedule pd) = concat (map (dayEntries tt t) ds)"
    unfolding assms(4) using assms(5-9) by (rule scheduleEntries_form)
  then show ?thesis
    using assms(1-3) by (simp add: handleProfessorSelect_def professorDataOf_def objectGet_def)
qed

lemma handleProfessorSelect_inherited_course:
  assumes "professors sd = Some byCourse" and "byCourse (ident (course c)) = None"
    and "ident (course c) \<in> set objectPrototypeKeys"
  shows "handleProfessorSelect tt sd prev c professorId = Inl TypeError"
  using assms by (simp add: handleProfessorSelect_def professorDataOf_def objectGet_def)

text \<open>
  The text "Quarta/Domingo/Sexta 09:40-10:00" with a day map that knows Quarta (2) and
  Sexta (4) but not Domingo: two entries, both at 09:40, and the earlier override of the
  course is replaced. The end time 10:00 is not the end of a two-slot class.
\<close>

lemma professor_schedule_example:
  "handleProfessorSelect exampleTimetable exampleSchedule
      [\<lparr>o_courseId = ''X'', o_professorId = ''P0'', o_schedule = []\<rparr>] exampleX ''P1'' =
     Inr [\<lparr>o_courseId = ''X'', o_professorId = ''P1'',
           o_schedule = [\<lparr>day = DayIndex 2, startTime = ''09:40''\<rparr>,
                         \<lparr>day = DayIndex 4, startTime = ''09:40''\<rparr>]\<rparr>]"
proof -
  let ?pd = "\<lparr>p_professorId = ''P1'', p_schedule = ''Quarta/Domingo/Sexta 09:40-10:00''\<rparr>"
  have "professors exampleSchedule = Some [''X'' \<mapsto> [?pd]]"
    "[''X'' \<mapsto> [?pd]] (ident (course exampleX)) = Some [?pd]"
    "find (\<lambda>p. p_professorId p = ''P1'') [?pd] = Some ?pd"
    "p_schedule ?pd =
       join CHR ''/'' [''Quarta'', ''Domingo'', ''Sexta''] @ CHR '' '' # ''09:40'' @ CHR ''-'' # ''10:00''"
    "[''Quarta'', ''Domingo'', ''Sexta''] \<noteq> []"
    "\<forall>dn\<in>set [''Quarta'', ''Domingo'', ''Sexta'']. CHR ''/'' \<notin> set dn \<and> CHR '' '' \<notin> set dn"
    "''09:40'' \<noteq> []" "CHR ''-'' \<notin> set ''09:40''" "CHR '' '' \<notin> set ''09:40''"
    by (simp_all add: exampleSchedule_def)
  from professor_schedule_parsing [OF this, of exampleTimetable
      "[\<lparr>o_courseId = ''X'', o_professorId = ''P0'', o_schedule = []\<rparr>]"]
  show ?thesis
    by (simp add: dayEntries_def objectGet_def objectPrototypeKeys_def exampleTimetable_def)
qed

text \<open>
  Claim C6. A day name that is not in the day map must yield no entry. It does not when
  the name is a property that every object inherits: for the schedule text
  "Quarta/constructor 09:40-11:20", with a day map that knows Quarta (2) and has no
  entry for constructor, handleProfessorSelect stores an override with two entries, the
  second for the day name constructor, whose day is the inherited property and no day
  index.
\<close>

theorem inherited_day_name_yields_entry:
  "handleProfessorSelect exampleTimetable exampleSchedule3 [] exampleX ''P1'' =
     Inr [\<lparr>o_courseId = ''X'', o_professorId = ''P1'',
           o_schedule = [\<lparr>day = DayIndex 2, startTime = ''09:40''\<rparr>,
                         \<lparr>day = InheritedProperty ''constructor'', startTime = ''09:40''\<rparr>]\<rparr>]
   \<and> DAYS_MAP exampleTimetable ''constructor'' = None"
proof -
  let ?pd = "\<lparr>p_professorId = ''P1'', p_schedule = ''Quarta/constructor 09:40-11:20''\<rparr>"
  have "professors exampleSchedule3 = Some [''X'' \<mapsto> [?pd]]"
    "[''X'' \<mapsto> [?pd]] (ident (course exampleX)) = Some [?pd]"
    "find (\<lambda>p. p_professorId p = ''P1'') [?pd] = Some ?pd"
    "p_schedule ?pd =
       join CHR ''/'' [''Quarta'', ''constructor''] @ CHR '' '' # ''09:40'' @ CHR ''-'' # ''11:20''"
    "[''Quarta'', ''constructor''] \<noteq> []"
    "\<forall>dn\<in>set [''Quarta'', ''constructor'']. CHR ''/'' \<notin> set dn \<and> CHR '' '' \<notin> set dn"
    "''09:40'' \<noteq> []" "CHR ''-'' \<notin> set ''09:40''" "CHR '' '' \<notin> set ''09:40''"
    by (simp_all add: exampleSchedule3_def)
  from professor_schedule_parsing [OF this, of exampleTimetable "[]"]
  have "handleProfessorSelect exampleTimetable exampleSchedule3 [] exampleX ''P1'' =
     Inr [\<lparr>o_courseId = ''X'', o_professorId = ''P1'',
           o_schedule = dayEntries exampleTimetable ''09:40'' ''Quarta'' @
                        dayEntries exampleTimetable ''09:40'' ''constructor''\<rparr>]"
    by simp
  moreover have "dayEntries exampleTimetable ''09:40'' ''Quarta'' =
      [\<lparr>day = DayIndex 2, startTime = ''09:40''\<rparr>]"
    by (simp add: dayEntries_def objectGet_def exampleTimetable_def)
  moreover have none: "DAYS_MAP exampleTimetable ''constructor'' = None"
    by (simp add: exampleTimetable_def)
  moreover have "dayEntries exampleTimetable ''09:40'' ''constructor'' =
      [\<lparr>day = InheritedProperty ''constructor'', startTime = ''09:40''\<rparr>]"
    using none by (rule dayEntries_inherited) (simp add: objectPrototypeKeys_def)
  ultimately show ?thesis by simp
qed

section \<open>Properties of parseStudentData\<close>

subsection \<open>An example\<close>

text \<open>
  A record with one coursed semester (A with grade 7.5, Z which the lookup does not know,
  B with grade 5.9, C with no grade), the current semester 2, and a plan of three
  semesters of which the third would be semester 4, with TOTAL_SEMESTERS = 3: the third
  plan semester is skipped.
\<close>

lemma parseStudentData_example:
  "parseStudentData exampleConfig exampleLookup exampleParseFloat exampleRaw =
     Inr \<lparr>info_id = ''u1'', info_studentId = ''1'', info_name = ''Student'',
          currentPlan = Some \<lparr>plan_id = ''1'', semesters =
            [Some \<lparr>number = 1,
                   courses = [Some (studentCourseOf (exampleCourse ''A'') COMPLETED
                                \<lparr>grade := Some (Num (15 / 2)), class_code := Some ''T1''\<rparr>),
                              Some (studentCourseOf (exampleCourse ''B'') FAILED
                                \<lparr>grade := Some (Num (59 / 10))\<rparr>),
                              Some (studentCourseOf (exampleCourse ''C'') FAILED
                                \<lparr>grade := Some (Num 0)\<rparr>)],
                   totalCredits = 12\<rparr>,
             Some \<lparr>number = 2, courses = [Some (studentCourseOf (exampleCourse ''C'') IN_PROGRESS)],
                   totalCredits = 4\<rparr>,
             Some \<lparr>number = 3, courses = [], totalCredits = 0\<rparr>]\<rparr>,
          plans = [\<lparr>plan_id = ''1'', semesters =
            [Some \<lparr>number = 1,
                   courses = [Some (studentCourseOf (exampleCourse ''A'') COMPLETED
                                \<lparr>grade := Some (Num (15 / 2)), class_code := Some ''T1''\<rparr>),
                              Some (studentCourseOf (exampleCourse ''B'') FAILED
                                \<lparr>grade := Some (Num (59 / 10))\<rparr>),
                              Some (studentCourseOf (exampleCourse ''C'') FAILED
                                \<lparr>grade := Some (Num 0)\<rparr>)],
                   totalCredits = 12\<rparr>,
             Some \<lparr>number = 2, courses = [Some (studentCourseOf (exampleCourse ''C'') IN_PROGRESS)],
                   totalCredits = 4\<rparr>,
             Some \<lparr>number = 3, courses = [], totalCredits = 0\<rparr>]\<rparr>],
          currentSemester = ''2'', currentDegree = ''208'', interestedDegrees = []\<rparr>"
  by (simp add: parseStudentData_def exampleRaw_def exampleConfig_def exampleLookup_def
      exampleParseFloat_def processCoursed_def addCoursed_def fillGap_def processPlanned_def
      addPlanned_def arraySet_def arrayGet_def orDefault_def orUndefined_def Let_def
      studentCourseOf_def exampleCourse_def string_of_int_def string_of_nat.simps digit_char_def
      upt_rec enumerate_eq_zip)

subsection \<open>Number of semesters\<close>

lemma length_arraySet: "length (arraySet xs i v) = max (length xs) (Suc i)"
  by (auto simp: arraySet_def)

lemma arrayGet_Some_less: "arrayGet xs (int i) = Some v \<Longrightarrow> i < length xs"
  by (auto simp: arrayGet_def split: if_splits)

lemma length_fillGap: "length (fillGap i xs) = max (length xs) (Suc i)"
proof (cases "arrayGet xs (int i)")
  case None
  then show ?thesis by (simp add: fillGap_def length_arraySet)
next
  case (Some v)
  from arrayGet_Some_less [OF this] Some show ?thesis
    by (simp add: fillGap_def)
qed

lemma length_fold_fillGap: "length (fold fillGap [0 ..< n] xs) = max (length xs) n"
  by (induction n) (auto simp: length_fillGap)

lemma fold_processCoursed_empty:
  "fold (processCoursed gci pf) (enumerate n (replicate k [])) sems = sems"
  by (induction k arbitrary: n) (auto simp: processCoursed_def)

lemma length_processCoursed:
  "length (processCoursed gci pf (n, c) sems) \<le> max (length sems) (Suc n)"
  by (simp add: processCoursed_def Let_def length_arraySet)

lemma length_fold_processCoursed:
  "length (fold (processCoursed gci pf) (enumerate n cs) sems) \<le> max (length sems) (n + length cs)"
proof (induction cs arbitrary: n sems)
  case Nil
  show ?case by simp
next
  case (Cons c cs)
  from Cons.IH [of "Suc n" "processCoursed gci pf (n, c) sems"]
    length_processCoursed [of gci pf n c sems]
  show ?case by simp
qed

lemma arrayGet_fillGap:
  "arrayGet (fillGap n xs) (int n) \<noteq> None"
  "arrayGet xs (int i) \<noteq> None \<Longrightarrow> arrayGet (fillGap n xs) (int i) \<noteq> None"
  by (auto simp: fillGap_def arrayGet_def arraySet_def nth_append nth_list_update split: if_splits)

lemma filled_fold_fillGap:
  "i < n \<Longrightarrow> arrayGet (fold fillGap [0 ..< n] xs) (int i) \<noteq> None"
proof (induction n)
  case 0
  then show ?case by simp
next
  case (Suc n)
  show ?case
  proof (cases "i = n")
    case True
    then show ?thesis by (simp add: arrayGet_fillGap(1))
  next
    case False
    with Suc have "arrayGet (fold fillGap [0 ..< n] xs) (int i) \<noteq> None" by simp
    then show ?thesis by (simp add: arrayGet_fillGap(2))
  qed
qed

lemma forEach_preserves:
  assumes "forEach f as s = Inr s'" and "P s"
    and "\<And>a t t'. f a t = Inr t' \<Longrightarrow> P t \<Longrightarrow> P t'"
  shows "P s'"
  using assms(1,2)
proof (induction as arbitrary: s)
  case Nil
  then show ?case by simp
next
  case (Cons a as)
  from Cons.prems(1) obtain t where t: "f a s = Inr t" "forEach f as t = Inr s'"
    by (auto split: sum.splits)
  from assms(3) [OF t(1) Cons.prems(2)] Cons.IH [OF t(2)] show ?case by blast
qed

lemma processPlanned_preserves:
  assumes "processPlanned cfg gci cur ix sems = Inr sems'"
    and "length sems = n \<and> (\<forall>i<n. arrayGet sems (int i) \<noteq> None)"
  shows "length sems' = n \<and> (\<forall>i<n. arrayGet sems' (int i) \<noteq> None)"
  using assms
  by (auto simp: processPlanned_def Let_def arrayGet_def nth_list_update
      split: if_splits option.splits sum.splits)

lemma parseStudentData_semester_count:
  assumes "parseStudentData cfg gci pf jsonData = Inr info"
    and "case raw_coursed jsonData of None \<Rightarrow> True | Some cs \<Rightarrow> length cs \<le> PHASE_TOTAL_SEMESTERS cfg"
  shows "\<exists>p. currentPlan info = Some p \<and> length (semesters p) = PHASE_TOTAL_SEMESTERS cfg
     \<and> None \<notin> set (semesters p)"
proof -
  let ?T = "PHASE_TOTAL_SEMESTERS cfg"
  let ?c = "case raw_coursed jsonData of None \<Rightarrow> []
            | Some cs \<Rightarrow> fold (processCoursed gci pf) (enumerate 0 cs) []"
  let ?f = "fold fillGap [0 ..< ?T] ?c"
  let ?I = "\<lambda>sems. length sems = ?T \<and> (\<forall>i<?T. arrayGet sems (int i) \<noteq> None)"
  have "length ?c \<le> ?T"
    using assms(2) length_fold_processCoursed [of gci pf 0 _ "[]"]
    by (auto split: option.splits intro: order_trans)
  then have f: "?I ?f"
    by (simp add: length_fold_fillGap filled_fold_fillGap)
  obtain sems where sems: "?I sems" and p: "currentPlan info = Some \<lparr>plan_id = ''1'', semesters = sems\<rparr>"
  proof (cases "raw_plan jsonData")
    case None
    with assms(1) have "currentPlan info = Some \<lparr>plan_id = ''1'', semesters = ?f\<rparr>"
      by (auto simp: parseStudentData_def Let_def)
    with f that show ?thesis by blast
  next
    case (Some ps)
    with assms(1) obtain sems where
      loop: "forEach (processPlanned cfg gci (raw_currentSemester jsonData)) (enumerate 0 ps) ?f = Inr sems"
      and "currentPlan info = Some \<lparr>plan_id = ''1'', semesters = sems\<rparr>"
      by (auto simp: parseStudentData_def Let_def split: sum.splits)
    moreover have "?I sems"
      by (rule forEach_preserves [OF loop, where P = ?I]) (use f processPlanned_preserves in blast)+
    ultimately show ?thesis using that by blast
  qed
  have "None \<notin> set sems"
  proof
    assume "None \<in> set sems"
    then obtain i where "i < length sems" "sems ! i = None"
      by (auto simp: in_set_conv_nth)
    with sems show False by (auto simp: arrayGet_def)
  qed
  with sems p show ?thesis by simp
qed

text \<open>
  Claim C8. The plan has TOTAL_SEMESTERS semesters, none of them a hole, when the coursed
  array has at most TOTAL_SEMESTERS semesters (lemma \<open>parseStudentData_semester_count\<close>
  above). The loop over the coursed semesters has no bound, unlike the loop over the plan:
  for a record whose coursed array has TOTAL_SEMESTERS empty semesters followed by one
  semester with a course that the lookup resolves, and an empty plan, parseStudentData
  returns a plan of TOTAL_SEMESTERS + 1 semesters.
\<close>

theorem coursed_beyond_total_semesters:
  "\<exists>info p. parseStudentData cfg (\<lambda>code. Some courseInfo) parseFloat
       (jsonData\<lparr>raw_coursed :=
            Some (replicate (PHASE_TOTAL_SEMESTERS cfg) [] @ [[(courseCode, classCode, gradeText)]]),
          raw_plan := Some []\<rparr>) = Inr info
     \<and> currentPlan info = Some p
     \<and> length (semesters p) = PHASE_TOTAL_SEMESTERS cfg + 1"
proof -
  let ?T = "PHASE_TOTAL_SEMESTERS cfg"
  let ?gci = "\<lambda>code :: string. Some courseInfo"
  let ?e = "(courseCode, classCode, gradeText)"
  have "enumerate 0 (replicate ?T [] @ [[?e]]) = enumerate 0 (replicate ?T []) @ [(?T, [?e])]"
    by (simp add: enumerate_append_eq)
  then have "fold (processCoursed ?gci parseFloat) (enumerate 0 (replicate ?T [] @ [[?e]])) [] =
      processCoursed ?gci parseFloat (?T, [?e]) []"
    by (simp add: fold_processCoursed_empty)
  moreover have "length (processCoursed ?gci parseFloat (?T, [?e]) []) = ?T + 1"
    by (simp add: processCoursed_def addCoursed_def Let_def length_arraySet)
  ultimately have "length (fold fillGap [0 ..< ?T]
      (fold (processCoursed ?gci parseFloat) (enumerate 0 (replicate ?T [] @ [[?e]])) [])) = ?T + 1"
    by (simp add: length_fold_fillGap)
  then show ?thesis
    by (simp add: parseStudentData_def Let_def)
qed

subsection \<open>The status of a coursed entry\<close>

lemma addCoursed_append:
  "addCoursed gci pf e cs = cs @ coursedCourse gci pf e"
  by (cases e) (simp add: coursedCourse_def addCoursed_def Let_def split: option.splits)

lemma fold_addCoursed:
  "fold (addCoursed gci pf) es cs = cs @ concat (map (coursedCourse gci pf) es)"
proof (induction es arbitrary: cs)
  case Nil
  show ?case by simp
next
  case (Cons e es)
  show ?case
    using Cons [of "addCoursed gci pf e cs"] addCoursed_append [of gci pf e cs] by simp
qed

lemma coursedCourse_unknown:
  "gci (fst e) = None \<Longrightarrow> coursedCourse gci pf e = []"
  by (cases e) (simp add: coursedCourse_def addCoursed_def)

lemma coursedCourse_known:
  assumes "gci code = Some ci"
  shows "\<exists>sc. coursedCourse gci pf (code, cls, gradeText) = [sc] \<and> course sc = ci
     \<and> status sc =
         (case gradeText of
            None \<Rightarrow> FAILED
          | Some t \<Rightarrow> if t = [] then FAILED
                      else if number_ge (pf t) 6 then COMPLETED else FAILED)
     \<and> grade sc = Some (case gradeText of None \<Rightarrow> Num 0
                         | Some t \<Rightarrow> if t = [] then Num 0 else pf t)"
  using assms
  by (auto simp: coursedCourse_def addCoursed_def Let_def split: option.splits)

lemma length_concat_singletons:
  assumes "\<And>x. length (f x) \<le> 1"
  shows "length (concat (map f xs)) = length (filter (\<lambda>x. f x \<noteq> []) xs)"
proof (induction xs)
  case Nil
  show ?case by simp
next
  case (Cons x xs)
  from assms [of x] have "f x = [] \<or> length (f x) = 1"
    by (cases "f x") auto
  with Cons show ?case by auto
qed

lemma nth_concat_singletons:
  assumes "\<And>x. length (f x) \<le> 1" and "j < length xs" and "f (xs ! j) = [v]"
  shows "length (filter (\<lambda>x. f x \<noteq> []) (take j xs)) < length (concat (map f xs))
     \<and> concat (map f xs) ! length (filter (\<lambda>x. f x \<noteq> []) (take j xs)) = v"
proof -
  let ?k = "length (filter (\<lambda>x. f x \<noteq> []) (take j xs))"
  have xs: "xs = take j xs @ xs ! j # drop (Suc j) xs"
    using assms(2) by (simp add: id_take_nth_drop [symmetric])
  have k: "length (concat (map f (take j xs))) = ?k"
    using assms(1) by (rule length_concat_singletons)
  have "concat (map f xs) = concat (map f (take j xs)) @ v # concat (map f (drop (Suc j) xs))"
    by (subst xs) (simp add: assms(3))
  then show ?thesis
    using k by (simp add: nth_append)
qed

lemma length_coursedCourse: "length (coursedCourse gci pf e) \<le> 1"
  by (cases e) (simp add: coursedCourse_def addCoursed_def Let_def split: option.splits)

lemma coursedCourse_nonempty: "coursedCourse gci pf e \<noteq> [] \<longleftrightarrow> gci (fst e) \<noteq> None"
  by (cases e) (simp add: coursedCourse_def addCoursed_def Let_def split: option.splits)

lemma arrayGet_arraySet:
  "arrayGet (arraySet xs m v) (int i) = (if i = m then Some v else arrayGet xs (int i))"
  by (auto simp: arrayGet_def arraySet_def nth_append nth_list_update)

lemma arrayGet_update:
  "arrayGet (xs[m := v]) (int i) = (if i = m \<and> m < length xs then v else arrayGet xs (int i))"
  by (auto simp: arrayGet_def nth_list_update)

lemma arrayGet_processCoursed_other:
  "i \<noteq> n \<Longrightarrow> arrayGet (processCoursed gci pf (n, es) sems) (int i) = arrayGet sems (int i)"
  by (simp add: processCoursed_def Let_def arrayGet_arraySet)

lemma arrayGet_fold_processCoursed_below:
  "i < n \<Longrightarrow> arrayGet (fold (processCoursed gci pf) (enumerate n cs) sems) (int i) = arrayGet sems (int i)"
proof (induction cs arbitrary: n sems)
  case Nil
  show ?case by simp
next
  case (Cons es cs)
  from Cons.IH [of "Suc n" "processCoursed gci pf (n, es) sems"] Cons.prems
  show ?case by (simp add: arrayGet_processCoursed_other)
qed

lemma arrayGet_fold_processCoursed:
  assumes "i < length cs" and "concat (map (coursedCourse gci pf) (cs ! i)) \<noteq> []"
  shows "\<exists>sem. arrayGet (fold (processCoursed gci pf) (enumerate n cs) sems) (int (n + i)) = Some sem
     \<and> courses sem = map Some (concat (map (coursedCourse gci pf) (cs ! i)))"
  using assms
proof (induction cs arbitrary: n i sems)
  case Nil
  then show ?case by simp
next
  case (Cons es cs)
  show ?case
  proof (cases i)
    case 0
    with Cons.prems(2) have ne: "fold (addCoursed gci pf) es [] \<noteq> []"
      by (simp add: fold_addCoursed)
    have "\<exists>sem. arrayGet (processCoursed gci pf (n, es) sems) (int n) = Some sem
        \<and> courses sem = map Some (concat (map (coursedCourse gci pf) es))"
      using ne by (simp add: processCoursed_def Let_def arrayGet_arraySet fold_addCoursed)
    with 0 show ?thesis
      by (simp add: arrayGet_fold_processCoursed_below)
  next
    case (Suc k)
    with Cons.prems have "k < length cs" "concat (map (coursedCourse gci pf) (cs ! k)) \<noteq> []"
      by auto
    from Cons.IH [OF this, of "Suc n" "processCoursed gci pf (n, es) sems"] Suc
    show ?thesis by simp
  qed
qed

lemma arrayGet_fillGap_Some:
  "arrayGet xs (int i) = Some v \<Longrightarrow> arrayGet (fillGap k xs) (int i) = Some v"
  by (auto simp: fillGap_def arrayGet_arraySet)

lemma arrayGet_fold_fillGap_Some:
  "arrayGet xs (int i) = Some v \<Longrightarrow> arrayGet (fold fillGap [0 ..< n] xs) (int i) = Some v"
  by (induction n) (auto simp: arrayGet_fillGap_Some)

lemma fold_addPlanned_append: "\<exists>more. fold (addPlanned gci st) es cs = cs @ more"
proof (induction es arbitrary: cs)
  case Nil
  show ?case by simp
next
  case (Cons e es)
  have "\<exists>one. addPlanned gci st e cs = cs @ one"
    by (cases e) (auto simp: addPlanned_def split: option.splits)
  then obtain one where one: "addPlanned gci st e cs = cs @ one" ..
  from Cons [of "cs @ one"] obtain more where "fold (addPlanned gci st) es (cs @ one) = (cs @ one) @ more"
    by blast
  with one show ?case by simp
qed

lemma processPlanned_keeps_prefix:
  assumes "processPlanned cfg gci cur ix sems = Inr sems'"
    and "\<exists>sem. arrayGet sems (int i) = Some sem \<and> take (length B) (courses sem) = B"
  shows "\<exists>sem. arrayGet sems' (int i) = Some sem \<and> take (length B) (courses sem) = B"
proof -
  let ?m = "cur + int (fst ix)"
  show ?thesis
  proof (cases "?m > int (PHASE_TOTAL_SEMESTERS cfg)")
    case True
    with assms show ?thesis by (simp add: processPlanned_def Let_def)
  next
    case False
    define st where "st = (if ?m = cur then IN_PROGRESS else PLANNED)"
    from False assms(1) obtain target creditTotal where
      target: "arrayGet sems (?m - 1) = Some target"
      and sems': "sems' = sems[nat (?m - 1) := Some (target\<lparr>courses :=
          fold (addPlanned gci st) (snd ix) (courses target), totalCredits := creditTotal\<rparr>)]"
      unfolding st_def
      by (auto simp: processPlanned_def Let_def split: option.splits sum.splits)
    from target have m: "0 \<le> ?m - 1" "nat (?m - 1) < length sems"
      by (auto simp: arrayGet_def split: if_splits)
    obtain more where more: "fold (addPlanned gci st) (snd ix) (courses target) =
        courses target @ more"
      using fold_addPlanned_append by blast
    let ?new = "target\<lparr>courses := fold (addPlanned gci st) (snd ix) (courses target),
        totalCredits := creditTotal\<rparr>"
    have get: "arrayGet sems' (int i) =
        (if i = nat (?m - 1) then Some ?new else arrayGet sems (int i))"
      unfolding sems' using m(2) by (simp only: arrayGet_update) simp
    show ?thesis
    proof (cases "i = nat (?m - 1)")
      case True
      with m have "int i = ?m - 1" by simp
      with target have "arrayGet sems (int i) = Some target" by simp
      with assms(2) have B: "take (length B) (courses target) = B" by simp
      from arg_cong [OF this, of length] have "length B \<le> length (courses target)"
        by simp
      with B have "take (length B) (courses target @ more) = B" by simp
      then have "take (length B) (courses ?new) = B"
        by (simp add: more)
      with True get show ?thesis by simp
    next
      case False
      with assms(2) get show ?thesis by simp
    qed
  qed
qed

text \<open>
  Claim C10. Let parseStudentData return, and let the entry at index \<open>j\<close> of the coursed
  semester at index \<open>i\<close> have a course code that the curriculum lookup resolves. Then
  the semester at index \<open>i\<close> of the returned plan holds, at the index that counts the
  resolved entries before \<open>j\<close>, a StudentCourse of the course found, whose grade is the
  parsed grade (0 when the grade text is missing or empty) and whose status is COMPLETED
  if the grade text is present, not empty, and parses to a number that is at least 6, and
  FAILED otherwise: for a smaller number, for NaN, and for a missing or empty grade.
\<close>

theorem grade_status:
  assumes "parseStudentData cfg getCourseInfo parseFloat jsonData = Inr info"
    and "raw_coursed jsonData = Some coursed"
    and "i < length coursed" and "j < length (coursed ! i)"
    and "coursed ! i ! j = (courseCode, classCode, gradeText)"
    and "getCourseInfo courseCode = Some courseInfo"
  shows "\<exists>p sem sc. currentPlan info = Some p
     \<and> i < length (semesters p) \<and> semesters p ! i = Some sem
     \<and> length (filter (\<lambda>e. getCourseInfo (fst e) \<noteq> None) (take j (coursed ! i)))
          < length (courses sem)
     \<and> courses sem ! length (filter (\<lambda>e. getCourseInfo (fst e) \<noteq> None) (take j (coursed ! i)))
          = Some sc
     \<and> course sc = courseInfo
     \<and> status sc =
         (case gradeText of
            None \<Rightarrow> FAILED
          | Some t \<Rightarrow> if t = [] then FAILED
                      else if number_ge (parseFloat t) 6 then COMPLETED else FAILED)
     \<and> grade sc = Some (case gradeText of None \<Rightarrow> Num 0
                         | Some t \<Rightarrow> if t = [] then Num 0 else parseFloat t)"
proof -
  let ?f = "coursedCourse getCourseInfo parseFloat"
  let ?es = "coursed ! i"
  let ?k = "length (filter (\<lambda>e. getCourseInfo (fst e) \<noteq> None) (take j ?es))"
  let ?B = "map Some (concat (map ?f ?es)) :: student_course option list"
  from assms(6) coursedCourse_known [where gci = getCourseInfo and code = courseCode
      and ci = courseInfo and pf = parseFloat and cls = classCode and gradeText = gradeText]
  obtain sc where sc: "?f (courseCode, classCode, gradeText) = [sc]" "course sc = courseInfo"
    "status sc =
         (case gradeText of
            None \<Rightarrow> FAILED
          | Some t \<Rightarrow> if t = [] then FAILED
                      else if number_ge (parseFloat t) 6 then COMPLETED else FAILED)"
    "grade sc = Some (case gradeText of None \<Rightarrow> Num 0
                         | Some t \<Rightarrow> if t = [] then Num 0 else parseFloat t)"
    by blast
  have filt: "(\<lambda>e. ?f e \<noteq> []) = (\<lambda>e. getCourseInfo (fst e) \<noteq> None)"
    by (rule ext) (rule coursedCourse_nonempty)
  from sc(1) assms(5) have "?f (?es ! j) = [sc]" by simp
  with nth_concat_singletons [where f = ?f and xs = ?es and j = j and v = sc]
    length_coursedCourse [of getCourseInfo parseFloat] assms(4)
  have k: "?k < length (concat (map ?f ?es))" "concat (map ?f ?es) ! ?k = sc"
    unfolding filt by simp_all
  from k(1) have ne: "concat (map ?f ?es) \<noteq> []"
    by (cases "concat (map ?f ?es)") simp_all
  let ?I = "\<lambda>sems. \<exists>sem. arrayGet sems (int i) = Some sem \<and> take (length ?B) (courses sem) = ?B"
  let ?c = "fold (processCoursed getCourseInfo parseFloat) (enumerate 0 coursed) []"
  let ?filled = "fold fillGap [0 ..< PHASE_TOTAL_SEMESTERS cfg] ?c"
  from arrayGet_fold_processCoursed [OF assms(3) ne, of 0 "[]"]
  obtain sem0 where "arrayGet ?c (int i) = Some sem0" "courses sem0 = ?B"
    by auto
  then have filled: "?I ?filled"
    using arrayGet_fold_fillGap_Some [of ?c i sem0 "PHASE_TOTAL_SEMESTERS cfg"] by auto
  obtain sems where sems: "?I sems" and p: "currentPlan info = Some \<lparr>plan_id = ''1'', semesters = sems\<rparr>"
  proof (cases "raw_plan jsonData")
    case None
    with assms(1,2) have "currentPlan info = Some \<lparr>plan_id = ''1'', semesters = ?filled\<rparr>"
      by (auto simp: parseStudentData_def Let_def)
    with filled that show ?thesis by blast
  next
    case (Some ps)
    with assms(1,2) obtain sems where
      loop: "forEach (processPlanned cfg getCourseInfo (raw_currentSemester jsonData))
          (enumerate 0 ps) ?filled = Inr sems"
      and "currentPlan info = Some \<lparr>plan_id = ''1'', semesters = sems\<rparr>"
      by (auto simp: parseStudentData_def Let_def split: sum.splits)
    moreover have "?I sems"
      by (rule forEach_preserves [OF loop, where P = ?I])
        (use filled processPlanned_keeps_prefix in blast)+
    ultimately show ?thesis using that by blast
  qed
  from sems obtain sem where sem: "arrayGet sems (int i) = Some sem"
    "take (length ?B) (courses sem) = ?B"
    by blast
  from sem(1) have i: "i < length sems" "sems ! i = Some sem"
    by (auto simp: arrayGet_def split: if_splits)
  from arg_cong [OF sem(2), of length] have len: "length ?B \<le> length (courses sem)"
    by simp
  have kB: "?k < length ?B" using k(1) by simp
  have "courses sem ! ?k = take (length ?B) (courses sem) ! ?k"
    using kB by simp
  also have "\<dots> = ?B ! ?k" by (simp only: sem(2))
  also have "\<dots> = Some sc" using k by simp
  finally have at: "courses sem ! ?k = Some sc" .
  from kB len have "?k < length (courses sem)" by simp
  with p i at sc(2-4) show ?thesis by auto
qed

text \<open>
  The example record: in the first semester of the returned plan, A (grade 7.5) is
  COMPLETED, B (grade 5.9) is FAILED, and C (no grade) is FAILED with grade 0; the entry
  Z, which the lookup does not know, has no StudentCourse.
\<close>

theorem grade_status_witness:
  "\<exists>info p sem scA scB scC.
     parseStudentData exampleConfig exampleLookup exampleParseFloat exampleRaw = Inr info
     \<and> currentPlan info = Some p \<and> semesters p ! 0 = Some sem
     \<and> courses sem ! 0 = Some scA \<and> ident (course scA) = ''A'' \<and> status scA = COMPLETED
     \<and> grade scA = Some (Num (15 / 2))
     \<and> courses sem ! 1 = Some scB \<and> ident (course scB) = ''B'' \<and> status scB = FAILED
     \<and> grade scB = Some (Num (59 / 10))
     \<and> courses sem ! 2 = Some scC \<and> ident (course scC) = ''C'' \<and> status scC = FAILED
     \<and> grade scC = Some (Num 0)"
proof -
  let ?es = "[(''A'', Some ''T1'', Some ''7.5''), (''Z'', None, Some ''7.5''),
              (''B'', Some '''', Some ''5.9''), (''C'', None, None)]"
  obtain info where parse:
    "parseStudentData exampleConfig exampleLookup exampleParseFloat exampleRaw = Inr info"
    using parseStudentData_example by blast
  have raw: "raw_coursed exampleRaw = Some [?es]" "0 < length [?es]"
    by (simp_all add: exampleRaw_def)
  have known: "exampleLookup ''A'' = Some (exampleCourse ''A'')"
    "exampleLookup ''B'' = Some (exampleCourse ''B'')"
    "exampleLookup ''C'' = Some (exampleCourse ''C'')"
    by (simp_all add: exampleLookup_def)
  have ks: "length (filter (\<lambda>e. exampleLookup (fst e) \<noteq> None) (take 0 ([?es] ! 0))) = 0"
    "length (filter (\<lambda>e. exampleLookup (fst e) \<noteq> None) (take 2 ([?es] ! 0))) = 1"
    "length (filter (\<lambda>e. exampleLookup (fst e) \<noteq> None) (take 3 ([?es] ! 0))) = 2"
    by (simp_all add: exampleLookup_def)
  have "0 < length ([?es] ! 0)" "[?es] ! 0 ! 0 = (''A'', Some ''T1'', Some ''7.5'')"
    by simp_all
  from grade_status [OF parse raw this known(1)]
  obtain p sem scA where p: "currentPlan info = Some p" "semesters p ! 0 = Some sem"
    and a: "courses sem ! 0 = Some scA" "course scA = exampleCourse ''A''"
      "status scA = COMPLETED" "grade scA = Some (Num (15 / 2))"
    unfolding ks by (auto simp: exampleParseFloat_def)
  have "2 < length ([?es] ! 0)" "[?es] ! 0 ! 2 = (''B'', Some '''', Some ''5.9'')"
    by simp_all
  from grade_status [OF parse raw this known(2)]
  obtain p' sem' scB where "currentPlan info = Some p'" "semesters p' ! 0 = Some sem'"
    and "courses sem' ! 1 = Some scB" "course scB = exampleCourse ''B''"
      "status scB = FAILED" "grade scB = Some (Num (59 / 10))"
    unfolding ks by (auto simp: exampleParseFloat_def)
  with p have b: "courses sem ! 1 = Some scB" "course scB = exampleCourse ''B''"
      "status scB = FAILED" "grade scB = Some (Num (59 / 10))"
    by auto
  have "3 < length ([?es] ! 0)" "[?es] ! 0 ! 3 = (''C'', None, None)"
    by simp_all
  from grade_status [OF parse raw this known(3)]
  obtain p'' sem'' scC where "currentPlan info = Some p''" "semesters p'' ! 0 = Some sem''"
    and "courses sem'' ! 2 = Some scC" "course scC = exampleCourse ''C''"
      "status scC = FAILED" "grade scC = Some (Num 0)"
    unfolding ks by auto
  with p have c: "courses sem ! 2 = Some scC" "course scC = exampleCourse ''C''"
      "status scC = FAILED" "grade scC = Some (Num 0)"
    by auto
  have id: "ident (exampleCourse code) = code" for code
    by (simp add: exampleCourse_def)
  from parse p a b c show ?thesis
    by (auto simp: id)
qed

end
